theory Spec2Isabelle
  imports Main "HOL-Library.Word"
begin

unbundle bit_operations_syntax

section \<open>Micro-checkpointing core (migration-checkpoint.c)\<close>

subsection \<open>Machine types and constants\<close>

type_synonym u8 = "8 word"
type_synonym u32 = "32 word"
type_synonym u64 = "64 word"

text \<open>\<^verbatim>\<open>#define MC_SLAB_BUFFER_SIZE (5 * 1024 * 1024)\<close>\<close>

definition MC_SLAB_BUFFER_SIZE :: nat where
  "MC_SLAB_BUFFER_SIZE = 5 * 1024 * 1024"

definition INT_MAX :: int where
  "INT_MAX = 2 ^ 31 - 1"

definition EINVAL :: int where
  "EINVAL = 22"

definition EIO :: int where
  "EIO = 5"

text \<open>
  The anonymous enum of transaction commands. A C enumerator without an initialiser has
  the value of its predecessor plus one, which is how the three later constants are
  written here.
  \<^verbatim>\<open>
  enum {
      MC_TRANSACTION_NACK = -1,
      MC_TRANSACTION_COMMIT,
      MC_TRANSACTION_CANCEL,
      MC_TRANSACTION_ACK,
  };
  \<close>
\<close>

definition MC_TRANSACTION_NACK :: int where
  "MC_TRANSACTION_NACK = - 1"

definition MC_TRANSACTION_COMMIT :: int where
  "MC_TRANSACTION_COMMIT = MC_TRANSACTION_NACK + 1"

definition MC_TRANSACTION_CANCEL :: int where
  "MC_TRANSACTION_CANCEL = MC_TRANSACTION_COMMIT + 1"

definition MC_TRANSACTION_ACK :: int where
  "MC_TRANSACTION_ACK = MC_TRANSACTION_CANCEL + 1"

text \<open>
  \<^verbatim>\<open>CALC_MAX_STRIKES\<close>:
  \<^verbatim>\<open>max_strikes = (max_strikes_delay_secs * 1000) / freq_ms\<close>.
  Division by a zero period traps, which is the value \<open>None\<close>; C division truncates
  towards zero.
\<close>

definition c_div :: "int \<Rightarrow> int \<Rightarrow> int" where
  "c_div a b = sgn a * sgn b * (\<bar>a\<bar> div \<bar>b\<bar>)"

definition CALC_MAX_STRIKES :: "int \<Rightarrow> int \<Rightarrow> int option" where
  "CALC_MAX_STRIKES max_strikes_delay_secs freq_ms =
     (if freq_ms = 0 then None
      else Some (c_div (max_strikes_delay_secs * 1000) freq_ms))"

subsection \<open>The slab ring\<close>

text \<open>
  \<^verbatim>\<open>struct MCSlab { MCSlab *next, *prev; uint8_t buf[MC_SLAB_BUFFER_SIZE];
                  uint64_t size; uint64_t read; };\<close>
  A byte of \<open>buf\<close> that was never written since \<open>g_malloc\<close> is indeterminate,
  which is the value \<open>None\<close>. The links \<open>next\<close> and \<open>prev\<close> are the position of
  the slab in the list \<open>slabs\<close> of the ring below.
\<close>

record MCSlab =
  buf :: "nat \<Rightarrow> u8 option"
  size_s :: u64
  read :: u64

text \<open>
  \<^verbatim>\<open>typedef struct MCParams { MCSlab *head, *curr_slab, *tail; uint64_t slab_total;
                            int nb_slabs; QEMUFile *file; int strikes; } MCParams;\<close>
  The doubly linked chain from \<open>head\<close> to \<open>tail\<close> is the list \<open>slabs\<close>: \<open>head\<close> is
  its first element, \<open>tail\<close> its last, the \<open>next\<close> of the slab at index \<open>i\<close> is the
  slab at index \<open>i + 1\<close>, or \<open>NULL\<close> at the tail. A slab pointer is an index into the
  list, \<open>NULL\<close> is \<open>None\<close>. The field \<open>file\<close> is only handed to \<open>qemu_get_fd\<close>
  and is left out.
\<close>

record MCParams =
  slabs :: "MCSlab list"
  curr_slab :: "nat option"
  slab_total :: u64
  nb_slabs :: int
  strikes :: int

definition slab_next_ptr :: "MCParams \<Rightarrow> nat \<Rightarrow> nat option" where
  "slab_next_ptr mc i = (if Suc i < length (slabs mc) then Some (Suc i) else None)"

text \<open>\<open>g_malloc(sizeof(MCSlab))\<close>: nothing of the new slab is initialised.\<close>

definition malloc_slab :: "u64 \<Rightarrow> u64 \<Rightarrow> MCSlab" where
  "malloc_slab sz rd = \<lparr>buf = (\<lambda>_. None), size_s = sz, read = rd\<rparr>"

text \<open>
  \<open>memcpy\<close> into and out of a slab buffer, at a byte offset.
\<close>

definition memcpy_to :: "(nat \<Rightarrow> u8 option) \<Rightarrow> nat \<Rightarrow> u8 list \<Rightarrow> (nat \<Rightarrow> u8 option)" where
  "memcpy_to b off data =
     (\<lambda>i. if off \<le> i \<and> i < off + length data then Some (data ! (i - off)) else b i)"

definition memcpy_from :: "(nat \<Rightarrow> u8 option) \<Rightarrow> nat \<Rightarrow> nat \<Rightarrow> u8 option list" where
  "memcpy_from b off n = map b [off ..< off + n]"

text \<open>
  \<^verbatim>\<open>
  QEMUFile *qemu_fopen_mc(void *opaque, const char *mode)
      mc->head = g_malloc(sizeof(MCSlab));
      mc->head->next = NULL;  mc->head->prev = NULL;
      mc->tail = mc->head;    mc->slab_total = 0;
      mc->curr_slab = mc->head;  mc->nb_slabs = 1;  mc->strikes = 0;
  \<close>
  The head's \<open>size\<close> and \<open>read\<close> are whatever \<open>g_malloc\<close> left there: they are the
  parameters \<open>sz\<close> and \<open>rd\<close>.
\<close>

definition qemu_fopen_mc :: "u64 \<Rightarrow> u64 \<Rightarrow> MCParams" where
  "qemu_fopen_mc sz rd =
     \<lparr>slabs = [malloc_slab sz rd], curr_slab = Some 0, slab_total = 0,
      nb_slabs = 1, strikes = 0\<rparr>"

text \<open>
  \<^verbatim>\<open>
  static MCSlab *mc_slab_next(MCParams *mc, MCSlab *slab)
  {
      if (!slab->next) {
          mc->nb_slabs++;
          mc->curr_slab = g_malloc(sizeof(MCSlab));
          mc->curr_slab->next = NULL;
          mc->curr_slab->prev = slab;
          slab->next = mc->curr_slab;
          slab = mc->curr_slab;
          mc->tail = slab;
      } else {
          slab = slab->next;
      }
      mc->curr_slab = slab;
      slab->size = 0;
      slab->read = 0;
      return slab;
  }
  \<close>
  Dereferencing a slab pointer that is not in the ring is undefined: \<open>None\<close>.
\<close>

definition mc_slab_next :: "MCParams \<Rightarrow> nat \<Rightarrow> (MCParams \<times> nat) option" where
  "mc_slab_next mc slab =
     (if length (slabs mc) \<le> slab then None
      else
        (let mc1 = (case slab_next_ptr mc slab of
                      None \<Rightarrow> mc\<lparr>nb_slabs := nb_slabs mc + 1,
                                 slabs := slabs mc @ [malloc_slab 0 0]\<rparr>
                    | Some _ \<Rightarrow> mc);
             slab1 = Suc slab
         in Some (mc1\<lparr>curr_slab := Some slab1,
                      slabs := (slabs mc1)[slab1 := (slabs mc1 ! slab1)\<lparr>size_s := 0, read := 0\<rparr>]\<rparr>,
                  slab1)))"

text \<open>
  The shrink loop of \<open>mc_slab_start\<close>:
  \<^verbatim>\<open>
  while (nb_slabs_to_free) {
      MCSlab *bye = mc->tail;
      mc->tail = mc->tail->prev;
      mc->tail->next = NULL;
      g_free(bye);
      nb_slabs_to_free--;
      mc->nb_slabs--;
  }
  \<close>
  With an empty chain \<open>mc->tail->prev\<close> dereferences \<open>NULL\<close>, and with one slab left
  \<open>mc->tail->next\<close> does (the head's \<open>prev\<close> is \<open>NULL\<close>): both are \<open>None\<close>.
\<close>

fun free_tail_slabs :: "nat \<Rightarrow> MCParams \<Rightarrow> MCParams option" where
  "free_tail_slabs 0 mc = Some mc"
| "free_tail_slabs (Suc n) mc =
     (if length (slabs mc) \<le> 1 then None
      else free_tail_slabs n (mc\<lparr>slabs := butlast (slabs mc), nb_slabs := nb_slabs mc - 1\<rparr>))"

text \<open>
  \<^verbatim>\<open>
  static MCSlab *mc_slab_start(MCParams *mc)
  {
      if (mc->nb_slabs >= 2) {
          if (mc->strikes >= max_strikes) {
              int nb_slabs_to_free = MAX(1, (((mc->nb_slabs - 1) / 2)));
              mc->strikes = 0;
              while (nb_slabs_to_free) { ... }
              goto skip;
          } else if (((mc->slab_total <=
                      ((mc->nb_slabs - 1) * MC_SLAB_BUFFER_SIZE)))) {
              mc->strikes++;
              goto skip;
          }
      }
      if (mc->strikes) {
          mc->strikes = 0;
      }
  skip:
      mc->slab_total = 0;
      mc->head->read = 0;
      mc->head->size = 0;
      mc->curr_slab = mc->head;
      return mc->head;
  }
  \<close>
  \<open>max_strikes\<close> is a global of the file and a parameter here. The product
  \<open>(mc->nb_slabs - 1) * MC_SLAB_BUFFER_SIZE\<close> is computed in \<open>int\<close>, where an
  overflow is undefined (\<open>None\<close>), and converted to \<open>uint64_t\<close> for the comparison.
  The returned pointer is always \<open>mc->head\<close>, index \<open>0\<close>.
\<close>

definition mc_slab_start_policy :: "int \<Rightarrow> MCParams \<Rightarrow> MCParams option" where
  "mc_slab_start_policy max_strikes mc =
     (let no_skip = (if strikes mc \<noteq> 0 then mc\<lparr>strikes := 0\<rparr> else mc)
      in if 2 \<le> nb_slabs mc then
           if max_strikes \<le> strikes mc then
             (let nb_slabs_to_free = max 1 (c_div (nb_slabs mc - 1) 2)
              in free_tail_slabs (nat nb_slabs_to_free) (mc\<lparr>strikes := 0\<rparr>))
           else if INT_MAX < (nb_slabs mc - 1) * int MC_SLAB_BUFFER_SIZE then None
           else if slab_total mc \<le> word_of_int ((nb_slabs mc - 1) * int MC_SLAB_BUFFER_SIZE)
             then Some (mc\<lparr>strikes := strikes mc + 1\<rparr>)
           else Some no_skip
         else Some no_skip)"

definition mc_slab_start :: "int \<Rightarrow> MCParams \<Rightarrow> MCParams option" where
  "mc_slab_start max_strikes mc =
     (case mc_slab_start_policy max_strikes mc of
        None \<Rightarrow> None
      | Some mc1 \<Rightarrow>
          (case slabs mc1 of
             [] \<Rightarrow> None
           | h # rest \<Rightarrow>
               Some (mc1\<lparr>slab_total := 0,
                         slabs := h\<lparr>read := 0, size_s := 0\<rparr> # rest,
                         curr_slab := Some 0\<rparr>)))"

text \<open>
  \<^verbatim>\<open>
  static int mc_put_buffer(void *opaque, const uint8_t *buf, int64_t pos, int size)
  {
      MCParams *mc = opaque;
      MCSlab *slab = mc->curr_slab;
      uint64_t len = size;
      uint8_t *data = (uint8_t *) buf;
      assert(slab && mc->head);
      while (len) {
          uint64_t put = MIN(MC_SLAB_BUFFER_SIZE - slab->size, len);
          memcpy(slab->buf + slab->size, data, put);
          data            += put;
          slab->size      += put;
          len             -= put;
          mc->slab_total  += put;
          if (len) {
              slab = mc_slab_next(mc, slab);
          }
      }
      return size;
  }
  \<close>
  The caller's bytes are the list \<open>data\<close>, \<open>size\<close> is its length and \<open>len\<close> the
  64-bit count of bytes still to write. A \<open>memcpy\<close> that would leave the slab buffer or
  the caller's bytes is undefined (\<open>None\<close>), as is a failed \<open>assert\<close>.
\<close>

function mc_put_loop :: "MCParams \<Rightarrow> nat \<Rightarrow> u64 \<Rightarrow> u8 list \<Rightarrow> MCParams option" where
  "mc_put_loop mc slab len data =
     (if len = 0 then Some mc
      else if length (slabs mc) \<le> slab then None
      else
        (let s = slabs mc ! slab;
             put = min (of_nat MC_SLAB_BUFFER_SIZE - size_s s) len
         in if MC_SLAB_BUFFER_SIZE < unat (size_s s) + unat put \<or> length data < unat put
            then None
            else
              (let s1 = s\<lparr>buf := memcpy_to (buf s) (unat (size_s s)) (take (unat put) data),
                          size_s := size_s s + put\<rparr>;
                   mc1 = mc\<lparr>slabs := (slabs mc)[slab := s1],
                            slab_total := slab_total mc + put\<rparr>
               in if len - put \<noteq> 0 then
                    (case mc_slab_next mc1 slab of
                       None \<Rightarrow> None
                     | Some (mc2, slab2) \<Rightarrow>
                         mc_put_loop mc2 slab2 (len - put) (drop (unat put) data))
                  else Some mc1)))"
  by pat_completeness auto

lemma mc_slab_next_fresh:
  assumes "mc_slab_next mc slab = Some (mc2, slab2)"
  shows "slab2 < length (slabs mc2) \<and> size_s (slabs mc2 ! slab2) = 0
         \<and> read (slabs mc2 ! slab2) = 0 \<and> slab2 = Suc slab \<and> curr_slab mc2 = Some slab2"
  using assms
  by (auto simp: mc_slab_next_def slab_next_ptr_def Let_def split: if_splits option.splits)

lemma cap_word_nonzero: "(of_nat MC_SLAB_BUFFER_SIZE :: u64) \<noteq> 0"
  by (simp add: MC_SLAB_BUFFER_SIZE_def)

termination mc_put_loop
proof (relation "measure (\<lambda>(mc, slab, len, data).
          2 * unat len +
          (if slab < length (slabs mc) \<and> size_s (slabs mc ! slab) = of_nat MC_SLAB_BUFFER_SIZE
           then 1 else 0))", goal_cases)
  case 1
  show ?case by simp
next
  case (2 mc slab len data s put s1 mc1 x2 mc2 slab2)
  have fresh: "slab2 < length (slabs mc2)" "size_s (slabs mc2 ! slab2) = 0"
    using mc_slab_next_fresh[of mc1 slab mc2 slab2] 2 by auto
  have putle: "put \<le> len" using 2 by simp
  have sub: "unat (len - put) = unat len - unat put"
    using putle by (simp add: unat_sub)
  show ?case
  proof (cases "put = 0")
    case True
    then have "of_nat MC_SLAB_BUFFER_SIZE - size_s s = 0"
      using 2 by (auto simp: min_def split: if_splits)
    then have "size_s (slabs mc ! slab) = of_nat MC_SLAB_BUFFER_SIZE"
      using 2 by simp
    then show ?thesis
      using True fresh 2 cap_word_nonzero by auto
  next
    case False
    then have "unat put \<noteq> 0" by (simp add: unat_eq_0)
    moreover have "unat put \<le> unat len" using putle by (simp add: word_le_nat_alt)
    ultimately show ?thesis
      using fresh sub cap_word_nonzero by auto
  qed
qed

declare mc_put_loop.simps [simp del]

definition mc_put_buffer :: "MCParams \<Rightarrow> u8 list \<Rightarrow> (MCParams \<times> int) option" where
  "mc_put_buffer mc data =
     (case curr_slab mc of
        None \<Rightarrow> None
      | Some slab \<Rightarrow>
          if slabs mc = [] then None
          else
            (case mc_put_loop mc slab (of_nat (length data)) data of
               None \<Rightarrow> None
             | Some mc1 \<Rightarrow> Some (mc1, int (length data))))"

text \<open>
  \<^verbatim>\<open>
  static int mc_get_buffer(void *opaque, uint8_t *buf, int64_t pos, int size)
  {
      MCParams *mc = opaque;
      MCSlab *slab = mc->curr_slab;
      uint64_t len = size;
      uint8_t *data = (uint8_t *) buf;
      while (len && slab) {
          uint64_t get = MIN(slab->size - slab->read, len);
          memcpy(data, slab->buf + slab->read, get);
          data            += get;
          slab->read      += get;
          len             -= get;
          mc->slab_total  -= get;
          if (len) {
              mc->curr_slab = slab = slab->next;
          }
      }
      return size - len;
  }
  \<close>
  The loop returns the ring, the count \<open>len\<close> that is left and the bytes copied to the
  caller, in order. A \<open>memcpy\<close> that would leave the slab buffer is undefined
  (\<open>None\<close>).
\<close>

function mc_get_loop ::
  "MCParams \<Rightarrow> nat option \<Rightarrow> u64 \<Rightarrow> u8 option list \<Rightarrow> (MCParams \<times> u64 \<times> u8 option list) option"
where
  "mc_get_loop mc slab len out =
     (case slab of
        None \<Rightarrow> Some (mc, len, out)
      | Some i \<Rightarrow>
          if len = 0 then Some (mc, len, out)
          else if length (slabs mc) \<le> i then None
          else
            (let s = slabs mc ! i;
                 get = min (size_s s - read s) len
             in if MC_SLAB_BUFFER_SIZE < unat (read s) + unat get then None
                else
                  (let out1 = out @ memcpy_from (buf s) (unat (read s)) (unat get);
                       s1 = s\<lparr>read := read s + get\<rparr>;
                       mc1 = mc\<lparr>slabs := (slabs mc)[i := s1],
                                slab_total := slab_total mc - get\<rparr>
                   in if len - get \<noteq> 0 then
                        mc_get_loop (mc1\<lparr>curr_slab := slab_next_ptr mc1 i\<rparr>)
                          (slab_next_ptr mc1 i) (len - get) out1
                      else Some (mc1, len - get, out1))))"
  by pat_completeness auto

termination mc_get_loop
proof (relation "measure (\<lambda>(mc, slab, len, out).
          case slab of None \<Rightarrow> 0 | Some i \<Rightarrow> Suc (length (slabs mc) - i))", goal_cases)
  case 1
  show ?case by simp
next
  case (2 mc slab len out i s get out1 s1 mc1)
  then show ?case
    by (auto simp: slab_next_ptr_def)
qed

declare mc_get_loop.simps [simp del]

text \<open>
  \<open>size\<close> is the count the caller asks for; the result is the ring, the bytes read and
  the returned count \<open>size - len\<close>.
\<close>

definition mc_get_buffer :: "MCParams \<Rightarrow> nat \<Rightarrow> (MCParams \<times> u8 option list \<times> int) option" where
  "mc_get_buffer mc sz =
     (case mc_get_loop mc (curr_slab mc) (of_nat sz) [] of
        None \<Rightarrow> None
      | Some (mc1, len, out) \<Rightarrow> Some (mc1, out, int sz - uint len))"

text \<open>
  \<^verbatim>\<open>
  static int mc_close(void *opaque)
      MCSlab *slab = mc->head;
      assert(slab);
      while (slab) { next = slab->next; g_free(slab); slab = next; }
      mc->curr_slab = NULL;
      mc->head = NULL;
      return 0;
  \<close>
\<close>

definition mc_close :: "MCParams \<Rightarrow> MCParams option" where
  "mc_close mc =
     (if slabs mc = [] then None else Some (mc\<lparr>slabs := [], curr_slab := None\<rparr>))"

subsection \<open>The traffic-buffer controller\<close>

text \<open>
  What the thread does to the outside is a trace of events, one for each external call
  whose order matters: the netlink calls on the plug qdisc, the hypervisor calls and the
  control stream. What the outside answers is an argument of the function that makes the
  call.
\<close>

datatype mc_event =
    Mutex_lock_iothread
  | Mutex_unlock_iothread
  | Vm_stop_force_state
  | Vm_start
  | Rtnl_qdisc_plug_set_limit int
  | Rtnl_qdisc_plug_buffer
  | Rtnl_qdisc_plug_release_one
  | Rtnl_qdisc_plug_release_indefinite
  | Rtnl_qdisc_add bool
  | Rtnl_qdisc_delete
  | Reset_buffer_staging
  | Savevm_state_begin
  | Savevm_state_complete
  | Fflush_staging
  | Put_be32 u32
  | Get_be32 u32 int
  | Get_be32_size u32
  | Send_full "u8 option list" int
  | Recv "u8 list"
  | Recv_failed int
  | Loadvm_state int
  | Usleep int
  | Fclose_staging
  | Bh_schedule_cleanup

text \<open>
  The statics \<open>buffering_enabled\<close>, \<open>buffer_size\<close> and \<open>new_buffer_size\<close>. The
  netlink handles (\<open>qdisc\<close>, \<open>sock\<close>, ...) are set whenever buffering is enabled.
\<close>

record buffering =
  buffering_enabled :: bool
  buffer_size :: int
  new_buffer_size :: int

text \<open>
  \<^verbatim>\<open>
  static int mc_deliver(int update)
  {
      int err, flags = NLM_F_CREATE;
      if (!buffering_enabled)
          return -EINVAL;
      if (!update)
          flags |= NLM_F_EXCL;
      if ((err = rtnl_qdisc_add(sock, qdisc, flags)) < 0) {
          return -EINVAL;
      }
      return 0;
  }
  \<close>
  \<open>add_err\<close> is what \<open>rtnl_qdisc_add\<close> returns; the event records whether
  \<open>NLM_F_EXCL\<close> was set.
\<close>

definition mc_deliver :: "buffering \<Rightarrow> bool \<Rightarrow> int \<Rightarrow> int \<times> mc_event list" where
  "mc_deliver b update add_err =
     (if \<not> buffering_enabled b then (- EINVAL, [])
      else if add_err < 0 then (- EINVAL, [Rtnl_qdisc_add (\<not> update)])
      else (0, [Rtnl_qdisc_add (\<not> update)]))"

text \<open>
  \<^verbatim>\<open>
  static int mc_set_buffer_size(int size)
  {
      if (!buffering_enabled) { return 1; }
      buffer_size = size;
      new_buffer_size = size;
      if ((err = rtnl_qdisc_plug_set_limit((void *) qdisc, size)) < 0) {
         return -EINVAL;
      }
      return mc_deliver(1);
  }
  \<close>
\<close>

definition mc_set_buffer_size ::
  "buffering \<Rightarrow> int \<Rightarrow> int \<Rightarrow> int \<Rightarrow> int \<times> mc_event list \<times> buffering" where
  "mc_set_buffer_size b sz limit_err add_err =
     (if \<not> buffering_enabled b then (1, [], b)
      else
        (let b1 = b\<lparr>buffer_size := sz, new_buffer_size := sz\<rparr>
         in if limit_err < 0 then (- EINVAL, [Rtnl_qdisc_plug_set_limit sz], b1)
            else (fst (mc_deliver b1 True add_err),
                  Rtnl_qdisc_plug_set_limit sz # snd (mc_deliver b1 True add_err), b1)))"

text \<open>
  \<^verbatim>\<open>
  int mc_start_buffer(void)
  {
      if (!buffering_enabled) { return -EINVAL; }
      if (new_buffer_size != buffer_size) {
          buffer_size = new_buffer_size;
          if (mc_set_buffer_size(buffer_size) < 0)
              return -EINVAL;
      }
      if ((err = rtnl_qdisc_plug_buffer((void *) qdisc)) < 0) {
          return -EINVAL;
      }
      return mc_deliver(1);
  }
  \<close>
\<close>

definition mc_start_buffer ::
  "buffering \<Rightarrow> int \<Rightarrow> int \<Rightarrow> int \<Rightarrow> int \<Rightarrow> int \<times> mc_event list \<times> buffering" where
  "mc_start_buffer b limit_err limit_add_err plug_err add_err =
     (if \<not> buffering_enabled b then (- EINVAL, [], b)
      else
        (let (r1, ev1, b1) =
               (if new_buffer_size b \<noteq> buffer_size b
                then mc_set_buffer_size (b\<lparr>buffer_size := new_buffer_size b\<rparr>)
                       (new_buffer_size b) limit_err limit_add_err
                else (0, [], b))
         in if r1 < 0 then (- EINVAL, ev1, b1)
            else if plug_err < 0 then (- EINVAL, ev1 @ [Rtnl_qdisc_plug_buffer], b1)
            else (fst (mc_deliver b1 True add_err),
                  ev1 @ Rtnl_qdisc_plug_buffer # snd (mc_deliver b1 True add_err), b1)))"

text \<open>
  \<^verbatim>\<open>
  static int mc_flush_oldest_buffer(void)
  {
      if (!buffering_enabled)
          return -EINVAL;
      if ((err = rtnl_qdisc_plug_release_one((void *) qdisc)) < 0) {
          return -EINVAL;
      }
      return mc_deliver(1);
  }
  \<close>
\<close>

definition mc_flush_oldest_buffer :: "buffering \<Rightarrow> int \<Rightarrow> int \<Rightarrow> int \<times> mc_event list" where
  "mc_flush_oldest_buffer b release_err add_err =
     (if \<not> buffering_enabled b then (- EINVAL, [])
      else if release_err < 0 then (- EINVAL, [Rtnl_qdisc_plug_release_one])
      else (fst (mc_deliver b True add_err),
            Rtnl_qdisc_plug_release_one # snd (mc_deliver b True add_err)))"

text \<open>
  \<^verbatim>\<open>
  static int mc_suspend_buffering(void)
  {
      if (!buffering_enabled) { return -EINVAL; }
      if ((err = rtnl_qdisc_plug_release_indefinite((void *) qdisc)) < 0) {
          return -EINVAL;
      }
      return mc_deliver(1);
  }
  static int mc_disable_buffering(void)
  {
      if (!buffering_enabled) { goto out; }
      mc_suspend_buffering();
      if (qdisc && sock && (err = rtnl_qdisc_delete(sock, (void *) qdisc)) < 0) { ... }
  out:
      buffering_enabled = 0;
      ...
      return 0;
  }
  \<close>
\<close>

definition mc_suspend_buffering :: "buffering \<Rightarrow> int \<Rightarrow> int \<Rightarrow> int \<times> mc_event list" where
  "mc_suspend_buffering b release_err add_err =
     (if \<not> buffering_enabled b then (- EINVAL, [])
      else if release_err < 0 then (- EINVAL, [Rtnl_qdisc_plug_release_indefinite])
      else (fst (mc_deliver b True add_err),
            Rtnl_qdisc_plug_release_indefinite # snd (mc_deliver b True add_err)))"

definition mc_disable_buffering :: "buffering \<Rightarrow> int \<Rightarrow> int \<Rightarrow> int \<times> mc_event list \<times> buffering" where
  "mc_disable_buffering b release_err add_err =
     (if \<not> buffering_enabled b then (0, [], b\<lparr>buffering_enabled := False\<rparr>)
      else (0, snd (mc_suspend_buffering b release_err add_err) @ [Rtnl_qdisc_delete],
            b\<lparr>buffering_enabled := False\<rparr>))"

subsection \<open>The checkpoint loop of the primary\<close>

text \<open>
  The migration states the file names, and one constructor for every other value of
  \<open>s->state\<close>. Of \<open>MigrationState\<close> the fields the loop decides on or sends are kept;
  the timing statistics (\<open>total_time\<close>, \<open>xmit_time\<close>, \<open>mbps\<close>, ...) are left out.
\<close>

datatype mig_state =
    MIG_STATE_ERROR
  | MIG_STATE_ACTIVE
  | MIG_STATE_MC
  | MIG_STATE_COMPLETED
  | MIG_STATE_OTHER

record MigrationState =
  state :: mig_state
  downtime :: int
  bytes_xfer :: int

text \<open>
  Modelled from the spec: \<open>migrate_set_state(s, old_state, new_state)\<close> is defined in
  the migration core, which is not among the sources. The spec says that a stream error
  transitions the migration state to ERROR; the call names the state it leaves, so the
  transition is taken from that state only.
\<close>

definition migrate_set_state :: "MigrationState \<Rightarrow> mig_state \<Rightarrow> mig_state \<Rightarrow> MigrationState" where
  "migrate_set_state s old_state new_state =
     (if state s = old_state then s\<lparr>state := new_state\<rparr> else s)"

text \<open>
  The staging file hands every byte the hypervisor saves to \<open>mc_put_buffer\<close>, in one or
  more calls: a list of byte sequences.
\<close>

fun mc_put_all :: "MCParams \<Rightarrow> u8 list list \<Rightarrow> MCParams option" where
  "mc_put_all mc [] = Some mc"
| "mc_put_all mc (d # ds) =
     (case mc_put_buffer mc d of
        None \<Rightarrow> None
      | Some (mc1, _) \<Rightarrow> mc_put_all mc1 ds)"

text \<open>
  The state the thread works on: the migration state \<open>s\<close>, the staging ring, the
  statics of the traffic-buffer controller and the globals \<open>max_strikes\<close> and
  \<open>freq_ms\<close>.
\<close>

record mc_world =
  mig :: MigrationState
  ring :: MCParams
  buf_ctl :: buffering
  max_strikes :: int
  freq_ms :: int

text \<open>
  What the outside answers during one pass of the loop of \<open>mc_thread\<close>, in the order
  of the calls: the state another thread may have stored in \<open>s->state\<close>, the clock,
  the results of the netlink calls of \<open>mc_start_buffer\<close>, the bytes the hypervisor
  saves and the two readings of \<open>qemu_file_get_error(s->file)\<close>, the result of
  \<open>qemu_ftell\<close>, the file error seen by \<open>mc_send\<close>, the results of the calls of
  \<open>qemu_send_full\<close>, the file error after the transmission, the word and the file
  error seen by \<open>mc_recv\<close>, and the results of the netlink calls of
  \<open>mc_flush_oldest_buffer\<close>.
\<close>

record tick_env =
  te_state :: "mig_state option"
  te_clock_start :: int
  te_set_limit_err :: int
  te_set_limit_add_err :: int
  te_plug_buffer_err :: int
  te_plug_buffer_add_err :: int
  te_begin_puts :: "u8 list list"
  te_begin_err :: int
  te_complete_puts :: "u8 list list"
  te_complete_err :: int
  te_clock_stop :: int
  te_fflush_puts :: "u8 list list"
  te_ftell :: int
  te_commit_err :: int
  te_send_rets :: "int list"
  te_file_err :: int
  te_ack_got :: u32
  te_ack_err :: int
  te_release_one_err :: int
  te_release_add_err :: int

text \<open>
  \<^verbatim>\<open>
  static int capture_checkpoint(MigrationState *s, QEMUFile *staging)
  {
      int ret = 0;
      int64_t start, stop;
      qemu_mutex_lock_iothread();
      vm_stop_force_state(RUN_STATE_CHECKPOINT_VM);
      start = qemu_get_clock_ms(rt_clock);
      mc_start_buffer();
      qemu_reset_buffer(staging);
      qemu_savevm_state_begin(staging, &s->params);
      ret = qemu_file_get_error(s->file);
      if (ret < 0) {
          migrate_set_state(s, MIG_STATE_MC, MIG_STATE_ERROR);
      }
      qemu_savevm_state_complete(staging);
      ret = qemu_file_get_error(s->file);
      if (ret < 0) {
          migrate_set_state(s, MIG_STATE_MC, MIG_STATE_ERROR);
          goto out;
      }
      stop = qemu_get_clock_ms(rt_clock);
      vm_start();
      qemu_fflush(staging);
      s->downtime = stop - start;
  out:
      qemu_mutex_unlock_iothread();
      return ret;
  }
  \<close>
  The result is the returned \<open>ret\<close>, the events in order and the state after the call;
  \<open>None\<close> when a write to the ring is undefined.
\<close>

definition capture_checkpoint ::
  "tick_env \<Rightarrow> mc_world \<Rightarrow> (int \<times> mc_event list \<times> mc_world) option" where
  "capture_checkpoint e w =
     (let (r0, ev0, b1) = mc_start_buffer (buf_ctl w) (te_set_limit_err e)
                            (te_set_limit_add_err e) (te_plug_buffer_err e)
                            (te_plug_buffer_add_err e);
          tr1 = [Mutex_lock_iothread, Vm_stop_force_state] @ ev0
                @ [Reset_buffer_staging, Savevm_state_begin]
      in case mc_put_all (ring w) (te_begin_puts e) of
           None \<Rightarrow> None
         | Some mc1 \<Rightarrow>
             (let s1 = (if te_begin_err e < 0
                        then migrate_set_state (mig w) MIG_STATE_MC MIG_STATE_ERROR
                        else mig w)
              in case mc_put_all mc1 (te_complete_puts e) of
                   None \<Rightarrow> None
                 | Some mc2 \<Rightarrow>
                     (let ret = te_complete_err e
                      in if ret < 0 then
                           Some (ret,
                                 tr1 @ [Savevm_state_complete, Mutex_unlock_iothread],
                                 w\<lparr>mig := migrate_set_state s1 MIG_STATE_MC MIG_STATE_ERROR,
                                   ring := mc2, buf_ctl := b1\<rparr>)
                         else
                           (case mc_put_all mc2 (te_fflush_puts e) of
                              None \<Rightarrow> None
                            | Some mc3 \<Rightarrow>
                                Some (ret,
                                      tr1 @ [Savevm_state_complete, Vm_start, Fflush_staging,
                                             Mutex_unlock_iothread],
                                      w\<lparr>mig := s1\<lparr>downtime := te_clock_stop e - te_clock_start e\<rparr>,
                                        ring := mc3, buf_ctl := b1\<rparr>)))))"

text \<open>
  Modelled from the spec: \<open>qemu_put_be32\<close> and \<open>qemu_get_be32\<close> belong to the byte
  stream abstraction, which is not among the sources. The spec says that all integers of
  the control protocol are big-endian 32-bit values: these are the four bytes of a word
  on the wire.
\<close>

definition be32_bytes :: "u32 \<Rightarrow> u8 list" where
  "be32_bytes w = [ucast (drop_bit 24 w), ucast (drop_bit 16 w), ucast (drop_bit 8 w), ucast w]"

text \<open>
  \<^verbatim>\<open>
  static int mc_send(QEMUFile *f, uint32_t request)
  {
      int ret = 0;
      qemu_put_be32(f, request);
      ret = qemu_file_get_error(f);
      if (ret) { fprintf(stderr, ...); }
      qemu_fflush(f);
      return ret;
  }
  \<close>
  \<open>err\<close> is what \<open>qemu_file_get_error(f)\<close> returns.
\<close>

definition mc_send :: "u32 \<Rightarrow> int \<Rightarrow> int \<times> mc_event list" where
  "mc_send request err = (err, [Put_be32 request])"

text \<open>
  \<^verbatim>\<open>
  static int mc_recv(QEMUFile *f, uint32_t request)
  {
      int ret = 0;
      uint32_t got;
      qemu_reset_buffer(f);
      got = qemu_get_be32(f);
      ret = qemu_file_get_error(f);
      if (ret) {
          fprintf(stderr, ...);
      } else {
          if (request != got) {
              ret = -EINVAL;
          }
      }
      return ret;
  }
  \<close>
  \<open>got\<close> and \<open>err\<close> are what \<open>qemu_get_be32(f)\<close> and \<open>qemu_file_get_error(f)\<close>
  return.
\<close>

definition mc_recv :: "u32 \<Rightarrow> u32 \<Rightarrow> int \<Rightarrow> int \<times> mc_event list" where
  "mc_recv request got err =
     ((if err \<noteq> 0 then err else if request \<noteq> got then - EINVAL else 0),
      [Get_be32 got err])"

text \<open>
  The transmission of one slab in \<open>mc_thread\<close>:
  \<^verbatim>\<open>
  int total = 0;
  while (total != slab->size) {
      if (ret > 0) {
          ret = qemu_send_full(fd, slab->buf + total, slab->size - total, 0);
          if (ret > 0) { total += ret; }
      }
      if (ret <= 0) { break; }
  }
  \<close>
  The list holds the results of the calls of \<open>qemu_send_full\<close> still to come. The
  result is the last \<open>ret\<close>, the results left and the events; \<open>None\<close> when the list
  ends while the loop still sends. \<open>qemu_send_full\<close> returns at most the count it was
  given.
\<close>

fun send_slab ::
  "MCSlab \<Rightarrow> int \<Rightarrow> int \<Rightarrow> int list \<Rightarrow> (int \<times> int list \<times> mc_event list) option" where
  "send_slab slab ret tot rets =
     (if (word_of_int tot :: u64) = size_s slab then Some (ret, rets, [])
      else if ret \<le> 0 then Some (ret, rets, [])
      else
        (case rets of
           [] \<Rightarrow> None
         | r # rs \<Rightarrow>
             (let ev = Send_full (memcpy_from (buf slab) (nat tot)
                                    (unat (size_s slab - word_of_int tot))) r
              in if r \<le> 0 then Some (r, rs, [ev])
                 else if uint (size_s slab - word_of_int tot) < r then None
                 else
                   (case send_slab slab r (tot + r) rs of
                      None \<Rightarrow> None
                    | Some (ret1, rs1, evs) \<Rightarrow> Some (ret1, rs1, ev # evs)))))"

declare send_slab.simps [simp del]

text \<open>
  The transmission of the ring in \<open>mc_thread\<close>, from the head:
  \<^verbatim>\<open>
  while (slab && slab->size) {
      int total = 0;
      while (total != slab->size) { ... }
      slab->size = 0;
      slab->read = 0;
      slab = slab->next;
  }
  \<close>
  The argument is the chain from \<open>slab\<close> on; the result is the chain after the loop,
  the last \<open>ret\<close>, the results of \<open>qemu_send_full\<close> left and the events.
\<close>

fun send_slabs ::
  "MCSlab list \<Rightarrow> int \<Rightarrow> int list \<Rightarrow> (MCSlab list \<times> int \<times> int list \<times> mc_event list) option" where
  "send_slabs [] ret rets = Some ([], ret, rets, [])"
| "send_slabs (slab # rest) ret rets =
     (if size_s slab = 0 then Some (slab # rest, ret, rets, [])
      else
        (case send_slab slab ret 0 rets of
           None \<Rightarrow> None
         | Some (ret1, rets1, ev1) \<Rightarrow>
             (case send_slabs rest ret1 rets1 of
                None \<Rightarrow> None
              | Some (rest1, ret2, rets2, ev2) \<Rightarrow>
                  Some (slab\<lparr>size_s := 0, read := 0\<rparr> # rest1, ret2, rets2, ev1 @ ev2))))"

text \<open>
  How one pass of the loop ends: at its end (the loop test comes next), by \<open>break\<close>, by
  \<open>goto err\<close>, or not at all in the model (\<open>Tick_stuck\<close>: the behaviour is undefined,
  or the outside has not answered yet).
\<close>

datatype tick_status = Tick_continue | Tick_break | Tick_err | Tick_stuck

text \<open>
  The body of the loop of \<open>mc_thread\<close>:
  \<^verbatim>\<open>
  slab = mc_slab_start(&mc);
  acct_clear();
  if (capture_checkpoint(s, mc_staging) < 0)
          break;
  s->bytes_xfer = qemu_ftell(mc_staging);
  if ((ret = mc_send(mc_write, MC_TRANSACTION_COMMIT) < 0)) {
      break;
  }
  qemu_put_be32(mc_write, s->bytes_xfer);
  qemu_fflush(mc_write);
  ret = 1;
  mc.curr_slab = mc.head;
  while (slab && slab->size) { ... }
  if (ret <= 0) { goto err; }
  if (qemu_file_get_error(s->file)) { goto err; }
  if ((ret = mc_recv(mc_read, MC_TRANSACTION_ACK)) < 0)
      goto err;
  mc_flush_oldest_buffer();
  ... statistics ...
  g_usleep(freq_ms * 1000);
  \<close>
\<close>

definition mc_tick :: "tick_env \<Rightarrow> mc_world \<Rightarrow> mc_event list \<times> tick_status \<times> mc_world" where
  "mc_tick e w =
     (case mc_slab_start (max_strikes w) (ring w) of
        None \<Rightarrow> ([], Tick_stuck, w)
      | Some mc0 \<Rightarrow>
          (case capture_checkpoint e (w\<lparr>ring := mc0\<rparr>) of
             None \<Rightarrow> ([], Tick_stuck, w)
           | Some (cret, tr_c, w1) \<Rightarrow>
               if cret < 0 then (tr_c, Tick_break, w1)
               else
                 (let w2 = w1\<lparr>mig := (mig w1)\<lparr>bytes_xfer := te_ftell e\<rparr>\<rparr>;
                      (sret, tr_s) = mc_send (word_of_int MC_TRANSACTION_COMMIT) (te_commit_err e)
                  in if sret < 0 then (tr_c @ tr_s, Tick_break, w2)
                     else
                       (let tr_z = [Put_be32 (word_of_int (bytes_xfer (mig w2)))];
                            mc1 = (ring w2)\<lparr>curr_slab := Some 0\<rparr>
                        in case send_slabs (slabs mc1) 1 (te_send_rets e) of
                             None \<Rightarrow> (tr_c @ tr_s @ tr_z, Tick_stuck, w2)
                           | Some (slabs1, ret, rets1, tr_p) \<Rightarrow>
                               (let w3 = w2\<lparr>ring := mc1\<lparr>slabs := slabs1\<rparr>\<rparr>;
                                    tr3 = tr_c @ tr_s @ tr_z @ tr_p
                                in if ret \<le> 0 then (tr3, Tick_err, w3)
                                   else if te_file_err e \<noteq> 0 then (tr3, Tick_err, w3)
                                   else
                                     (let (rret, tr_r) =
                                            mc_recv (word_of_int MC_TRANSACTION_ACK)
                                              (te_ack_got e) (te_ack_err e)
                                      in if rret < 0 then (tr3 @ tr_r, Tick_err, w3)
                                         else
                                           (tr3 @ tr_r
                                            @ snd (mc_flush_oldest_buffer (buf_ctl w3)
                                                     (te_release_one_err e) (te_release_add_err e))
                                            @ [Usleep (freq_ms w3 * 1000)],
                                            Tick_continue, w3)))))))"

text \<open>
  \<^verbatim>\<open>while (s->state == MIG_STATE_MC) { ... }\<close>
  One \<open>tick_env\<close> for every pass; the thread has not come further when the list ends.
  Every event carries the number of the checkpoint of its pass, counted from 1 (the
  counter is not a variable of the program).
\<close>

fun mc_loop ::
  "nat \<Rightarrow> mc_world \<Rightarrow> tick_env list \<Rightarrow> (nat \<times> mc_event) list \<times> tick_status \<times> mc_world" where
  "mc_loop k w [] = ([], Tick_stuck, w)"
| "mc_loop k w (e # es) =
     (let w0 = (case te_state e of
                  None \<Rightarrow> w
                | Some st \<Rightarrow> w\<lparr>mig := (mig w)\<lparr>state := st\<rparr>\<rparr>)
      in if state (mig w0) \<noteq> MIG_STATE_MC then ([], Tick_break, w0)
         else
           (case mc_tick e w0 of
              (tr, Tick_continue, w1) \<Rightarrow>
                (case mc_loop (Suc k) w1 es of
                   (tr2, st2, w2) \<Rightarrow> (map (Pair k) tr @ tr2, st2, w2))
            | (tr, st, w1) \<Rightarrow> (map (Pair k) tr, st, w1)))"

text \<open>
  What the outside answers before the loop and after it.
\<close>

record setup_env =
  se_write_ok :: bool
  se_read_ok :: bool
  se_staging_ok :: bool
  se_head_size :: u64
  se_head_read :: u64
  se_ack_got :: u32
  se_ack_err :: int

record teardown_env =
  td_release_err :: int
  td_add_err :: int

text \<open>
  The end of \<open>mc_thread\<close>:
  \<^verbatim>\<open>
  err:
      migrate_set_state(s, MIG_STATE_MC, MIG_STATE_ERROR);
  out:
      if (mc_staging) { qemu_fclose(mc_staging); }
      mc_disable_buffering();
      qemu_mutex_lock_iothread();
      if (s->state != MIG_STATE_ERROR) {
          migrate_set_state(s, MIG_STATE_MC, MIG_STATE_COMPLETED);
      }
      qemu_bh_schedule(s->cleanup_bh);
      qemu_mutex_unlock_iothread();
  \<close>
\<close>

definition mc_thread_exit ::
  "bool \<Rightarrow> bool \<Rightarrow> teardown_env \<Rightarrow> mc_world \<Rightarrow> mc_event list \<times> mc_world" where
  "mc_thread_exit err staging td w =
     (let s1 = (if err then migrate_set_state (mig w) MIG_STATE_MC MIG_STATE_ERROR else mig w);
          (r, ev, b1) = mc_disable_buffering (buf_ctl w) (td_release_err td) (td_add_err td);
          s2 = (if state s1 \<noteq> MIG_STATE_ERROR
                then migrate_set_state s1 MIG_STATE_MC MIG_STATE_COMPLETED else s1)
      in ((if staging then [Fclose_staging] else []) @ ev
          @ [Mutex_lock_iothread, Bh_schedule_cleanup, Mutex_unlock_iothread],
          w\<lparr>mig := s2, buf_ctl := b1\<rparr>))"

text \<open>
  \<^verbatim>\<open>
  static void *mc_thread(void *opaque)
      MCParams mc = { .file = s->file };
      if (!(mc_write = qemu_fopen_socket(fd, "wb"))) { goto err; }
      if (!(mc_read = qemu_fopen_socket(fd, "rb"))) { goto err; }
      if (!(mc_staging = qemu_fopen_mc(&mc, "wb"))) { goto err; }
      ...
      if ((ret = mc_recv(mc_read, MC_TRANSACTION_ACK)) < 0) { goto err; }
      while (s->state == MIG_STATE_MC) { ... }
      goto out;
  \<close>
  The result is the trace, whether the thread came to its end, and the state. The ring
  of \<open>w\<close> is the one \<open>qemu_fopen_mc\<close> makes.
\<close>

definition mc_thread ::
  "setup_env \<Rightarrow> tick_env list \<Rightarrow> teardown_env \<Rightarrow> mc_world
   \<Rightarrow> (nat \<times> mc_event) list \<times> bool \<times> mc_world" where
  "mc_thread se es td w =
     (if \<not> se_write_ok se \<or> \<not> se_read_ok se \<or> \<not> se_staging_ok se then
        (map (Pair 0) (fst (mc_thread_exit True False td w)), True,
         snd (mc_thread_exit True False td w))
      else
        (let w0 = w\<lparr>ring := qemu_fopen_mc (se_head_size se) (se_head_read se)\<rparr>;
             (rret, tr_r) = mc_recv (word_of_int MC_TRANSACTION_ACK) (se_ack_got se) (se_ack_err se)
         in if rret < 0 then
              (map (Pair 0) (tr_r @ fst (mc_thread_exit True True td w0)), True,
               snd (mc_thread_exit True True td w0))
            else
              (case mc_loop 1 w0 es of
                 (tr, Tick_stuck, w1) \<Rightarrow> (map (Pair 0) tr_r @ tr, False, w1)
               | (tr, st, w1) \<Rightarrow>
                   (map (Pair 0) tr_r @ tr
                    @ map (Pair 0) (fst (mc_thread_exit (st = Tick_err) True td w1)),
                    True, snd (mc_thread_exit (st = Tick_err) True td w1)))))"

subsection \<open>The checkpoint loop of the secondary\<close>

text \<open>
  What the outside answers during one pass of the loop of
  \<open>mc_process_incoming_checkpoints_if_requested\<close>: the word and the file error seen
  by \<open>mc_recv\<close>, the checkpoint size read by \<open>qemu_get_be32\<close>, the results of the
  calls of \<open>qemu_recv\<close> (the returned count and the bytes stored), the file error seen
  by \<open>mc_send\<close>, and for \<open>qemu_loadvm_state\<close> the counts it asks of
  \<open>mc_get_buffer\<close> and its result.
\<close>

record incoming_env =
  ie_commit_got :: u32
  ie_commit_err :: int
  ie_size :: u32
  ie_recvs :: "(int \<times> u8 list) list"
  ie_ack_err :: int
  ie_load_gets :: "nat list"
  ie_load_ret :: int

text \<open>
  The filling of one slab:
  \<^verbatim>\<open>
  while (total != slab->size) {
      got = qemu_recv(fd, slab->buf + total, slab->size - total, 0);
      if (got <= 0) { goto rollback; }
      received += got;
      total += got;
  }
  \<close>
  The result is the slab, \<open>received\<close>, the results of \<open>qemu_recv\<close> left, the events
  and whether the loop left by \<open>goto rollback\<close>. \<open>qemu_recv\<close> stores as many bytes as
  it returns and at most the count it was given; an \<open>int\<close> that overflows is undefined.
\<close>

fun recv_slab ::
  "MCSlab \<Rightarrow> int \<Rightarrow> int \<Rightarrow> (int \<times> u8 list) list
   \<Rightarrow> (MCSlab \<times> int \<times> (int \<times> u8 list) list \<times> mc_event list \<times> bool) option" where
  "recv_slab slab received tot recvs =
     (if (word_of_int tot :: u64) = size_s slab then Some (slab, received, recvs, [], False)
      else
        (case recvs of
           [] \<Rightarrow> None
         | (got, bs) # rs \<Rightarrow>
             if got \<le> 0 then Some (slab, received, rs, [Recv_failed got], True)
             else if int (length bs) \<noteq> got \<or> uint (size_s slab - word_of_int tot) < got
                     \<or> INT_MAX < received + got
             then None
             else
               (case recv_slab (slab\<lparr>buf := memcpy_to (buf slab) (nat tot) bs\<rparr>)
                       (received + got) (tot + got) rs of
                  None \<Rightarrow> None
                | Some (slab1, received1, rs1, evs, failed) \<Rightarrow>
                    Some (slab1, received1, rs1, Recv bs # evs, failed))))"

declare recv_slab.simps [simp del]

lemma recv_slab_length:
  "recv_slab slab received tot recvs = Some (slab1, received1, rs1, evs, failed)
   \<Longrightarrow> length rs1 \<le> length recvs"
proof (induction recvs arbitrary: slab received tot evs)
  case Nil
  then show ?case
    by (subst (asm) recv_slab.simps) (simp split: if_splits)
next
  case (Cons a recvs)
  obtain got bs where a: "a = (got, bs)" by (cases a)
  from Cons.prems show ?case
    unfolding a
    by (subst (asm) recv_slab.simps)
       (auto split: if_splits option.splits dest!: Cons.IH)
qed

lemma recv_slab_consumes:
  assumes "recv_slab slab received 0 recvs = Some (slab1, received1, rs1, evs, failed)"
    and "size_s slab \<noteq> 0"
  shows "length rs1 < length recvs"
proof (cases recvs)
  case Nil
  with assms show ?thesis
    by (subst (asm) recv_slab.simps) (simp split: if_splits)
next
  case (Cons a rs)
  obtain got bs where a: "a = (got, bs)" by (cases a)
  from assms show ?thesis
    unfolding Cons a
    by (subst (asm) recv_slab.simps)
       (auto split: if_splits option.splits dest!: recv_slab_length)
qed

text \<open>
  The reception of one checkpoint:
  \<^verbatim>\<open>
  while (received < checkpoint_size) {
      int total = 0;
      slab->size = MIN((checkpoint_size - received), MC_SLAB_BUFFER_SIZE);
      mc.slab_total += slab->size;
      while (total != slab->size) { ... }
      if (received != checkpoint_size) {
          slab = mc_slab_next(&mc, slab);
      }
  }
  \<close>
  \<open>received\<close> is an \<open>int\<close> and \<open>checkpoint_size\<close> a \<open>uint32_t\<close>: the comparisons
  and the subtraction are unsigned 32-bit. The result is the ring, the results of
  \<open>qemu_recv\<close> left, the events and whether the loop left by \<open>goto rollback\<close>.
\<close>

function recv_checkpoint ::
  "MCParams \<Rightarrow> nat \<Rightarrow> u32 \<Rightarrow> int \<Rightarrow> (int \<times> u8 list) list
   \<Rightarrow> (MCParams \<times> (int \<times> u8 list) list \<times> mc_event list \<times> bool) option" where
  "recv_checkpoint mc slab checkpoint_size received recvs =
     (if \<not> (word_of_int received < checkpoint_size) then Some (mc, recvs, [], False)
      else if length (slabs mc) \<le> slab then None
      else
        (let sz = (ucast (min (checkpoint_size - word_of_int received)
                              (of_nat MC_SLAB_BUFFER_SIZE)) :: u64);
             mc1 = mc\<lparr>slabs := (slabs mc)[slab := (slabs mc ! slab)\<lparr>size_s := sz\<rparr>],
                      slab_total := slab_total mc + sz\<rparr>
         in case recv_slab (slabs mc1 ! slab) received 0 recvs of
              None \<Rightarrow> None
            | Some (slab1, received1, rs1, ev1, failed) \<Rightarrow>
                (let mc2 = mc1\<lparr>slabs := (slabs mc1)[slab := slab1]\<rparr>
                 in if failed then Some (mc2, rs1, ev1, True)
                    else if word_of_int received1 \<noteq> checkpoint_size then
                      (case mc_slab_next mc2 slab of
                         None \<Rightarrow> None
                       | Some (mc3, slab3) \<Rightarrow>
                           (case recv_checkpoint mc3 slab3 checkpoint_size received1 rs1 of
                              None \<Rightarrow> None
                            | Some (mc4, rs4, ev4, failed4) \<Rightarrow>
                                Some (mc4, rs4, ev1 @ ev4, failed4)))
                    else
                      (case recv_checkpoint mc2 slab checkpoint_size received1 rs1 of
                         None \<Rightarrow> None
                       | Some (mc4, rs4, ev4, failed4) \<Rightarrow>
                           Some (mc4, rs4, ev1 @ ev4, failed4)))))"
  by pat_completeness auto

lemma uint_ucast_u32_u64: "uint (ucast (x :: u32) :: u64) = uint x"
  by (rule uint_up_ucast) (simp add: is_up)

lemma ucast_u32_u64_eq_0: "(ucast (x :: u32) :: u64) = 0 \<longleftrightarrow> x = 0"
proof -
  have "(ucast x :: u64) = 0 \<longleftrightarrow> uint (ucast x :: u64) = 0" by (simp add: uint_0_iff)
  also have "\<dots> \<longleftrightarrow> uint x = 0" by (simp add: uint_ucast_u32_u64)
  also have "\<dots> \<longleftrightarrow> x = 0" by (simp add: uint_0_iff)
  finally show ?thesis .
qed

lemma slab_fill_size_nonzero:
  assumes "(r :: u32) < c"
  shows "(ucast (min (c - r) (of_nat MC_SLAB_BUFFER_SIZE)) :: u64) \<noteq> 0"
proof -
  have "c - r \<noteq> 0" using assms by auto
  then have "min (c - r) (of_nat MC_SLAB_BUFFER_SIZE :: u32) \<noteq> 0"
    by (simp add: min_def MC_SLAB_BUFFER_SIZE_def)
  then show ?thesis by (simp add: ucast_u32_u64_eq_0)
qed

termination recv_checkpoint
proof (relation "measure (\<lambda>(mc, slab, checkpoint_size, received, recvs). length recvs)",
    goal_cases)
  case 1
  show ?case by simp
next
  case (2 mc slab checkpoint_size received recvs sz mc1 x2 slab1 y received1 z rs1 u ev1 failed mc2 x2a mc3 slab3)
  have "size_s (slabs mc1 ! slab) = sz" using 2 by simp
  moreover have "sz \<noteq> 0" using 2 slab_fill_size_nonzero by simp
  ultimately show ?case
    using 2 recv_slab_consumes[of "slabs mc1 ! slab" received recvs slab1 received1 rs1 ev1 failed]
    by simp
next
  case (3 mc slab checkpoint_size received recvs sz mc1 x2 slab1 y received1 z rs1 u ev1 failed mc2)
  have "size_s (slabs mc1 ! slab) = sz" using 3 by simp
  moreover have "sz \<noteq> 0" using 3 slab_fill_size_nonzero by simp
  ultimately show ?case
    using 3 recv_slab_consumes[of "slabs mc1 ! slab" received recvs slab1 received1 rs1 ev1 failed]
    by simp
qed

declare recv_checkpoint.simps [simp del]

text \<open>
  \<open>qemu_loadvm_state\<close> reads the staged bytes through \<open>mc_get_buffer\<close>, in one or
  more calls: a list of counts.
\<close>

fun mc_get_all :: "MCParams \<Rightarrow> nat list \<Rightarrow> MCParams option" where
  "mc_get_all mc [] = Some mc"
| "mc_get_all mc (n # ns) =
     (case mc_get_buffer mc n of
        None \<Rightarrow> None
      | Some (mc1, _, _) \<Rightarrow> mc_get_all mc1 ns)"

text \<open>
  How one pass of the loop of the secondary ends: at its end, by \<open>goto rollback\<close>
  (the function returns), by \<open>goto err\<close> (\<open>exit(1)\<close>), or not at all in the model.
  \<open>In_not_requested\<close> is the early return before the loop.
\<close>

datatype incoming_status =
    In_continue
  | In_not_requested
  | In_rollback
  | In_exit int
  | In_stuck

text \<open>
  The body of the loop of \<open>mc_process_incoming_checkpoints_if_requested\<close>:
  \<^verbatim>\<open>
  uint32_t checkpoint_size = 0;
  int received = 0, got;
  slab = mc_slab_start(&mc);
  if (mc_recv(mc_read, MC_TRANSACTION_COMMIT) < 0) { goto rollback; }
  checkpoint_size = qemu_get_be32(mc_read);
  if (checkpoint_size == 0) {
          fprintf(stderr, "Empty checkpoint? huh?\n");
          goto rollback;
  }
  while (received < checkpoint_size) { ... }
  mc.curr_slab = mc.head;
  if (mc_send(mc_write, MC_TRANSACTION_ACK) < 0) { goto rollback; }
  slab_total_save = mc.slab_total;
  if (qemu_loadvm_state(mc_staging) < 0) {
      fprintf(stderr, "loadvm transaction failed\n");
      goto err;
  }
  mc.slab_total = slab_total_save;
  ...
  rollback:
      fprintf(stderr, "MC: checkpoint stopped. Recovering VM\n");
      return;
  err:
      fprintf(stderr, "Micro Checkpointing Protocol Failed\n");
      exit(1);
  \<close>
\<close>

definition mc_incoming_tick ::
  "int \<Rightarrow> incoming_env \<Rightarrow> MCParams \<Rightarrow> mc_event list \<times> incoming_status \<times> MCParams" where
  "mc_incoming_tick strikes_max e mc =
     (case mc_slab_start strikes_max mc of
        None \<Rightarrow> ([], In_stuck, mc)
      | Some mc0 \<Rightarrow>
          (let (rret, tr_r) = mc_recv (word_of_int MC_TRANSACTION_COMMIT)
                                (ie_commit_got e) (ie_commit_err e)
           in if rret < 0 then (tr_r, In_rollback, mc0)
              else
                (let checkpoint_size = ie_size e;
                     tr1 = tr_r @ [Get_be32_size checkpoint_size]
                 in if checkpoint_size = 0 then (tr1, In_rollback, mc0)
                    else
                      (case recv_checkpoint mc0 0 checkpoint_size 0 (ie_recvs e) of
                         None \<Rightarrow> (tr1, In_stuck, mc0)
                       | Some (mc1, rs1, tr_p, failed) \<Rightarrow>
                           if failed then (tr1 @ tr_p, In_rollback, mc1)
                           else
                             (let mc2 = mc1\<lparr>curr_slab := Some 0\<rparr>;
                                  (sret, tr_s) = mc_send (word_of_int MC_TRANSACTION_ACK)
                                                   (ie_ack_err e);
                                  tr2 = tr1 @ tr_p @ tr_s
                              in if sret < 0 then (tr2, In_rollback, mc2)
                                 else
                                   (let slab_total_save = slab_total mc2
                                    in case mc_get_all mc2 (ie_load_gets e) of
                                         None \<Rightarrow> (tr2, In_stuck, mc2)
                                       | Some mc3 \<Rightarrow>
                                           if ie_load_ret e < 0
                                           then (tr2 @ [Loadvm_state (ie_load_ret e)],
                                                 In_exit 1, mc3)
                                           else (tr2 @ [Loadvm_state (ie_load_ret e)],
                                                 In_continue,
                                                 mc3\<lparr>slab_total := slab_total_save\<rparr>)))))))"

text \<open>
  \<^verbatim>\<open>while (true) { ... }\<close>: one \<open>incoming_env\<close> for every pass; the function has
  not come further when the list ends.
\<close>

fun mc_incoming_loop ::
  "nat \<Rightarrow> int \<Rightarrow> MCParams \<Rightarrow> incoming_env list
   \<Rightarrow> (nat \<times> mc_event) list \<times> incoming_status \<times> MCParams" where
  "mc_incoming_loop k strikes_max mc [] = ([], In_stuck, mc)"
| "mc_incoming_loop k strikes_max mc (e # es) =
     (case mc_incoming_tick strikes_max e mc of
        (tr, In_continue, mc1) \<Rightarrow>
          (case mc_incoming_loop (Suc k) strikes_max mc1 es of
             (tr2, st2, mc2) \<Rightarrow> (map (Pair k) tr @ tr2, st2, mc2))
      | (tr, st, mc1) \<Rightarrow> (map (Pair k) tr, st, mc1))"

text \<open>
  What the outside answers before the loop of the secondary, with the globals
  \<open>max_strikes_delay_secs\<close>, \<open>freq_ms\<close> and \<open>mc_requested\<close>.
\<close>

record incoming_setup =
  is_max_strikes_delay_secs :: int
  is_freq_ms :: int
  is_mc_requested :: bool
  is_write_ok :: bool
  is_read_ok :: bool
  is_staging_ok :: bool
  is_head_size :: u64
  is_head_read :: u64
  is_ack_err :: int

text \<open>
  \<^verbatim>\<open>
  void mc_process_incoming_checkpoints_if_requested(QEMUFile *f)
  {
      MCParams mc = { .file = f };
      CALC_MAX_STRIKES();
      if (!mc_requested) { return; }
      if (!(mc_write = qemu_fopen_socket(fd, "wb"))) { goto rollback; }
      if (!(mc_read = qemu_fopen_socket(fd, "rb"))) { goto rollback; }
      if (!(mc_staging = qemu_fopen_mc(&mc, "rb"))) { goto rollback; }
      ...
      if (mc_send(mc_write, MC_TRANSACTION_ACK) < 0)
          goto rollback;
      while (true) { ... }
  \<close>
\<close>

definition mc_process_incoming_checkpoints_if_requested ::
  "incoming_setup \<Rightarrow> incoming_env list \<Rightarrow> (nat \<times> mc_event) list \<times> incoming_status" where
  "mc_process_incoming_checkpoints_if_requested su es =
     (case CALC_MAX_STRIKES (is_max_strikes_delay_secs su) (is_freq_ms su) of
        None \<Rightarrow> ([], In_stuck)
      | Some strikes_max \<Rightarrow>
          if \<not> is_mc_requested su then ([], In_not_requested)
          else if \<not> is_write_ok su \<or> \<not> is_read_ok su \<or> \<not> is_staging_ok su
            then ([], In_rollback)
          else
            (let mc0 = qemu_fopen_mc (is_head_size su) (is_head_read su);
                 (sret, tr_s) = mc_send (word_of_int MC_TRANSACTION_ACK) (is_ack_err su)
             in if sret < 0 then (map (Pair 0) tr_s, In_rollback)
                else
                  (case mc_incoming_loop 1 strikes_max mc0 es of
                     (tr, st, mc1) \<Rightarrow> (map (Pair 0) tr_s @ tr, st))))"

section \<open>Properties of the micro-checkpointing core\<close>

subsection \<open>The control protocol\<close>

text \<open>
  The events that write to the socket of the primary: the 32-bit words of the control
  stream and the bytes of the checkpoint.
\<close>

fun is_tx :: "mc_event \<Rightarrow> bool" where
  "is_tx (Put_be32 _) = True"
| "is_tx (Send_full _ _) = True"
| "is_tx _ = False"

fun is_send_full :: "mc_event \<Rightarrow> bool" where
  "is_send_full (Send_full _ _) = True"
| "is_send_full _ = False"

text \<open>
  What one pass may write: nothing, or the command word alone, or the command word, the
  size and then payload only.
\<close>

fun commit_first :: "u32 \<Rightarrow> u32 \<Rightarrow> mc_event list \<Rightarrow> bool" where
  "commit_first cmd sz [] = True"
| "commit_first cmd sz [a] = (a = Put_be32 cmd)"
| "commit_first cmd sz (a # b # rest) =
     (a = Put_be32 cmd \<and> b = Put_be32 sz \<and> list_all is_send_full rest)"

lemma mc_deliver_no_tx: "filter is_tx (snd (mc_deliver b u a)) = []"
  by (simp add: mc_deliver_def)

lemma mc_set_buffer_size_no_tx:
  "filter is_tx (fst (snd (mc_set_buffer_size b sz l a))) = []"
  by (simp add: mc_set_buffer_size_def Let_def mc_deliver_no_tx)

lemma mc_start_buffer_no_tx:
  "filter is_tx (fst (snd (mc_start_buffer b l la p a))) = []"
proof -
  obtain r1 ev1 b1 where s: "mc_set_buffer_size (b\<lparr>buffer_size := new_buffer_size b\<rparr>)
      (new_buffer_size b) l la = (r1, ev1, b1)"
    by (cases "mc_set_buffer_size (b\<lparr>buffer_size := new_buffer_size b\<rparr>)
      (new_buffer_size b) l la") auto
  have "filter is_tx ev1 = []"
    using mc_set_buffer_size_no_tx[of "b\<lparr>buffer_size := new_buffer_size b\<rparr>"
        "new_buffer_size b" l la] s by simp
  then show ?thesis
    using s by (simp add: mc_start_buffer_def Let_def mc_deliver_no_tx)
qed

lemma mc_flush_oldest_buffer_no_tx:
  "filter is_tx (snd (mc_flush_oldest_buffer b r a)) = []"
  by (simp add: mc_flush_oldest_buffer_def mc_deliver_no_tx)

lemma capture_checkpoint_no_tx:
  assumes "capture_checkpoint e w = Some (r, tr, w1)"
  shows "filter is_tx tr = []"
proof -
  obtain r0 ev0 b1 where sb: "mc_start_buffer (buf_ctl w) (te_set_limit_err e)
      (te_set_limit_add_err e) (te_plug_buffer_err e) (te_plug_buffer_add_err e) = (r0, ev0, b1)"
    by (cases "mc_start_buffer (buf_ctl w) (te_set_limit_err e)
      (te_set_limit_add_err e) (te_plug_buffer_err e) (te_plug_buffer_add_err e)") auto
  have "filter is_tx ev0 = []"
    using mc_start_buffer_no_tx[of "buf_ctl w" "te_set_limit_err e" "te_set_limit_add_err e"
        "te_plug_buffer_err e" "te_plug_buffer_add_err e"] sb by simp
  then show ?thesis
    using assms sb
    by (auto simp: capture_checkpoint_def Let_def split: option.splits if_splits)
qed

lemma send_slab_events:
  "send_slab slab ret tot rets = Some (ret1, rets1, ev) \<Longrightarrow> list_all is_send_full ev"
proof (induction rets arbitrary: ret tot ev)
  case Nil
  then show ?case
    by (subst (asm) send_slab.simps) (auto split: if_splits)
next
  case (Cons r rs)
  from Cons.prems show ?case
    by (subst (asm) send_slab.simps)
       (auto simp: Let_def split: if_splits option.splits dest!: Cons.IH)
qed

lemma send_slabs_events:
  "send_slabs ss ret rets = Some (ss1, ret1, rets1, ev) \<Longrightarrow> list_all is_send_full ev"
proof (induction ss arbitrary: ret rets ss1 ev)
  case Nil
  then show ?case by simp
next
  case (Cons s ss)
  from Cons.prems show ?case
    by (auto split: if_splits option.splits dest!: Cons.IH send_slab_events)
qed

lemma filter_tx_send_full: "list_all is_send_full ev \<Longrightarrow> filter is_tx ev = ev"
proof (induction ev)
  case Nil
  then show ?case by simp
next
  case (Cons a ev)
  then show ?case by (cases a) auto
qed

lemma mc_tick_tx:
  "commit_first (word_of_int MC_TRANSACTION_COMMIT) (word_of_int (te_ftell e))
     (filter is_tx (fst (mc_tick e w)))"
proof (cases "mc_slab_start (max_strikes w) (ring w)")
  case None
  then show ?thesis by (simp add: mc_tick_def)
next
  case (Some mc0)
  show ?thesis
  proof (cases "capture_checkpoint e (w\<lparr>ring := mc0\<rparr>)")
    case None
    then show ?thesis using Some by (simp add: mc_tick_def)
  next
    case (Some c)
    obtain cret tr_c w1 where c: "c = (cret, tr_c, w1)" by (cases c)
    have notx: "filter is_tx tr_c = []"
      using capture_checkpoint_no_tx Some c by blast
    show ?thesis
    proof (cases "send_slabs (slabs (ring w1)) 1 (te_send_rets e)")
      case None
      then show ?thesis
        using \<open>mc_slab_start (max_strikes w) (ring w) = Some mc0\<close> Some c notx
        by (simp add: mc_tick_def mc_send_def Let_def)
    next
      case (Some p)
      obtain slabs1 ret rets1 tr_p where p: "p = (slabs1, ret, rets1, tr_p)" by (cases p)
      have "list_all is_send_full tr_p" using send_slabs_events Some p by blast
      then have "filter is_tx tr_p = tr_p" by (rule filter_tx_send_full)
      then show ?thesis
        using \<open>mc_slab_start (max_strikes w) (ring w) = Some mc0\<close>
          \<open>capture_checkpoint e (w\<lparr>ring := mc0\<rparr>) = Some c\<close> c notx Some p
          \<open>list_all is_send_full tr_p\<close>
        by (simp add: mc_tick_def mc_send_def mc_recv_def Let_def
            mc_flush_oldest_buffer_no_tx)
    qed
  qed
qed

text \<open>
  C3 (amended). The sentinels of the control protocol are NACK = -1, COMMIT = 0,
  CANCEL = 1 and ACK = 2: the enum starts at -1 and counts on from there. In every pass
  of the loop of the primary the first word written to the socket is the COMMIT command,
  the 32-bit word 0 (on the wire the four bytes 0, 0, 0, 0), then the size, then payload
  only.
\<close>

theorem mc_transaction_sentinels:
  "MC_TRANSACTION_NACK = - 1 \<and> MC_TRANSACTION_COMMIT = 0
   \<and> MC_TRANSACTION_CANCEL = 1 \<and> MC_TRANSACTION_ACK = 2
   \<and> mc_send (word_of_int MC_TRANSACTION_COMMIT) err = (err, [Put_be32 0])
   \<and> be32_bytes (word_of_int MC_TRANSACTION_COMMIT) = [0, 0, 0, 0]
   \<and> commit_first 0 (word_of_int (te_ftell e)) (filter is_tx (fst (mc_tick e w)))"
proof -
  have c: "MC_TRANSACTION_COMMIT = 0"
    by (simp add: MC_TRANSACTION_COMMIT_def MC_TRANSACTION_NACK_def)
  have "commit_first 0 (word_of_int (te_ftell e)) (filter is_tx (fst (mc_tick e w)))"
    using mc_tick_tx[of e w] by (simp add: c)
  then show ?thesis
    by (simp add: c MC_TRANSACTION_NACK_def MC_TRANSACTION_CANCEL_def
        MC_TRANSACTION_ACK_def mc_send_def be32_bytes_def)
qed

text \<open>
  The values the claim gives (COMMIT = 1, CANCEL = 2, ACK = 3, the word 1 sent as the
  COMMIT command) are not the values of the enum.
\<close>

theorem mc_transaction_sentinels_counterexample:
  "\<not> (MC_TRANSACTION_NACK = - 1 \<and> MC_TRANSACTION_COMMIT = 1
      \<and> MC_TRANSACTION_CANCEL = 2 \<and> MC_TRANSACTION_ACK = 3
      \<and> mc_send (word_of_int MC_TRANSACTION_COMMIT) 0 = (0, [Put_be32 1]))"
  by (simp add: MC_TRANSACTION_COMMIT_def MC_TRANSACTION_NACK_def)

subsection \<open>The slab ring: writing and reading\<close>

definition slab_ok :: "MCSlab \<Rightarrow> bool" where
  "slab_ok s = (read s \<le> size_s s \<and> unat (size_s s) \<le> MC_SLAB_BUFFER_SIZE)"

definition put_amt :: "MCParams \<Rightarrow> nat \<Rightarrow> u64 \<Rightarrow> u64" where
  "put_amt mc slab len = min (of_nat MC_SLAB_BUFFER_SIZE - size_s (slabs mc ! slab)) len"

definition put_write :: "MCParams \<Rightarrow> nat \<Rightarrow> u64 \<Rightarrow> u8 list \<Rightarrow> MCParams" where
  "put_write mc slab len data =
     mc\<lparr>slabs := (slabs mc)[slab := (slabs mc ! slab)
             \<lparr>buf := memcpy_to (buf (slabs mc ! slab)) (unat (size_s (slabs mc ! slab)))
                      (take (unat (put_amt mc slab len)) data),
              size_s := size_s (slabs mc ! slab) + put_amt mc slab len\<rparr>],
         slab_total := slab_total mc + put_amt mc slab len\<rparr>"

lemma mc_put_loop_unfold:
  "mc_put_loop mc slab len data =
     (if len = 0 then Some mc
      else if length (slabs mc) \<le> slab then None
      else if MC_SLAB_BUFFER_SIZE < unat (size_s (slabs mc ! slab)) + unat (put_amt mc slab len)
              \<or> length data < unat (put_amt mc slab len) then None
      else if len - put_amt mc slab len \<noteq> 0 then
        (case mc_slab_next (put_write mc slab len data) slab of
           None \<Rightarrow> None
         | Some (mc2, slab2) \<Rightarrow>
             mc_put_loop mc2 slab2 (len - put_amt mc slab len)
               (drop (unat (put_amt mc slab len)) data))
      else Some (put_write mc slab len data))"
  apply (subst mc_put_loop.simps)
  apply (unfold Let_def put_amt_def put_write_def)
  apply (rule refl)
  done

lemma mc_put_loop_induct [case_names step]:
  assumes "\<And>mc slab len data.
     (\<And>mc2 slab2. len \<noteq> 0 \<Longrightarrow> slab < length (slabs mc)
        \<Longrightarrow> \<not> (MC_SLAB_BUFFER_SIZE < unat (size_s (slabs mc ! slab)) + unat (put_amt mc slab len)
               \<or> length data < unat (put_amt mc slab len))
        \<Longrightarrow> len - put_amt mc slab len \<noteq> 0
        \<Longrightarrow> mc_slab_next (put_write mc slab len data) slab = Some (mc2, slab2)
        \<Longrightarrow> P mc2 slab2 (len - put_amt mc slab len) (drop (unat (put_amt mc slab len)) data))
     \<Longrightarrow> P mc slab len data"
  shows "P mc slab len data"
proof (induction mc slab len data rule: mc_put_loop.induct)
  case (1 mc slab len data)
  show ?case
  proof (rule assms, goal_cases)
    case (1 mc2 slab2)
    then show ?case
      using "1.IH"[of "slabs mc ! slab" "put_amt mc slab len" _ "put_write mc slab len data"
          "(mc2, slab2)" mc2 slab2]
      by (simp add: put_amt_def put_write_def)
  qed
qed

lemma cap_unat: "unat (of_nat MC_SLAB_BUFFER_SIZE :: u64) = MC_SLAB_BUFFER_SIZE"
  by (simp add: MC_SLAB_BUFFER_SIZE_def)

lemma unat_put_amt:
  assumes "unat (size_s (slabs mc ! slab)) \<le> MC_SLAB_BUFFER_SIZE"
  shows "unat (put_amt mc slab len)
         = min (MC_SLAB_BUFFER_SIZE - unat (size_s (slabs mc ! slab))) (unat len)"
proof -
  let ?sz = "size_s (slabs mc ! slab)"
  have le: "?sz \<le> of_nat MC_SLAB_BUFFER_SIZE"
    using assms by (simp add: word_le_nat_alt cap_unat)
  have "unat (of_nat MC_SLAB_BUFFER_SIZE - ?sz) = MC_SLAB_BUFFER_SIZE - unat ?sz"
    using le by (simp add: unat_sub cap_unat)
  then show ?thesis
    by (simp add: put_amt_def min_def word_le_nat_alt)
qed

lemma put_amt_le: "put_amt mc slab len \<le> len"
  by (simp add: put_amt_def)

lemma unat_len_minus_put: "unat (len - put_amt mc slab len) = unat len - unat (put_amt mc slab len)"
  using put_amt_le by (simp add: unat_sub)

definition remaining :: "MCSlab \<Rightarrow> u8 option list" where
  "remaining s = memcpy_from (buf s) (unat (read s)) (unat (size_s s) - unat (read s))"

definition content_from :: "MCSlab list \<Rightarrow> nat \<Rightarrow> u8 option list" where
  "content_from ss i = concat (map remaining (drop i ss))"

definition tail_empty :: "MCSlab list \<Rightarrow> nat \<Rightarrow> bool" where
  "tail_empty ss c = list_all (\<lambda>s. size_s s = 0) (drop (Suc c) ss)"

definition sum_sizes :: "MCSlab list \<Rightarrow> u64" where
  "sum_sizes ss = sum_list (map size_s ss)"

lemma slabs_put_write:
  "slabs (put_write mc slab len data) = (slabs mc)[slab := slabs (put_write mc slab len data) ! slab]"
  by (cases "slab < length (slabs mc)") (simp_all add: put_write_def list_update_beyond)

lemma put_write_fields:
  "slab_total (put_write mc slab len data) = slab_total mc + put_amt mc slab len"
  "strikes (put_write mc slab len data) = strikes mc"
  "nb_slabs (put_write mc slab len data) = nb_slabs mc"
  "curr_slab (put_write mc slab len data) = curr_slab mc"
  "length (slabs (put_write mc slab len data)) = length (slabs mc)"
  by (simp_all add: put_write_def)

lemma put_write_nth:
  assumes "slab < length (slabs mc)"
  shows "size_s (slabs (put_write mc slab len data) ! slab)
           = size_s (slabs mc ! slab) + put_amt mc slab len"
    and "read (slabs (put_write mc slab len data) ! slab) = read (slabs mc ! slab)"
    and "buf (slabs (put_write mc slab len data) ! slab)
           = memcpy_to (buf (slabs mc ! slab)) (unat (size_s (slabs mc ! slab)))
               (take (unat (put_amt mc slab len)) data)"
    and "j \<noteq> slab \<Longrightarrow> slabs (put_write mc slab len data) ! j = slabs mc ! j"
  using assms by (simp_all add: put_write_def)

lemma put_fits:
  assumes "slab < length (slabs mc)" "slab_ok (slabs mc ! slab)"
  shows "unat (size_s (slabs mc ! slab)) + unat (put_amt mc slab len) \<le> MC_SLAB_BUFFER_SIZE"
proof -
  have le: "unat (size_s (slabs mc ! slab)) \<le> MC_SLAB_BUFFER_SIZE"
    using assms by (simp add: slab_ok_def)
  have "unat (put_amt mc slab len)
         = min (MC_SLAB_BUFFER_SIZE - unat (size_s (slabs mc ! slab))) (unat len)"
    using le by (rule unat_put_amt)
  then show ?thesis using le by arith
qed

lemma unat_size_after_put:
  assumes "slab < length (slabs mc)" "slab_ok (slabs mc ! slab)"
  shows "unat (size_s (slabs mc ! slab) + put_amt mc slab len)
         = unat (size_s (slabs mc ! slab)) + unat (put_amt mc slab len)"
proof -
  have "unat (size_s (slabs mc ! slab)) + unat (put_amt mc slab len) \<le> MC_SLAB_BUFFER_SIZE"
    using assms by (rule put_fits)
  then have "unat (size_s (slabs mc ! slab)) + unat (put_amt mc slab len) < 2 ^ 64"
    by (simp add: MC_SLAB_BUFFER_SIZE_def)
  then show ?thesis
    by (simp add: unat_add_lem[THEN iffD1])
qed

lemma put_write_slab_ok:
  assumes "slab < length (slabs mc)" "slab_ok (slabs mc ! slab)"
  shows "slab_ok (slabs (put_write mc slab len data) ! slab)"
proof -
  have a: "unat (size_s (slabs mc ! slab) + put_amt mc slab len)
         = unat (size_s (slabs mc ! slab)) + unat (put_amt mc slab len)"
    using assms by (rule unat_size_after_put)
  have b: "unat (size_s (slabs mc ! slab)) + unat (put_amt mc slab len) \<le> MC_SLAB_BUFFER_SIZE"
    using assms by (rule put_fits)
  have "unat (read (slabs mc ! slab)) \<le> unat (size_s (slabs mc ! slab))"
    using assms by (simp add: slab_ok_def word_le_nat_alt)
  then show ?thesis
    using a b assms(1) by (simp add: slab_ok_def put_write_nth word_le_nat_alt)
qed

lemma put_write_all_ok:
  assumes "slab < length (slabs mc)" "list_all slab_ok (slabs mc)"
  shows "list_all slab_ok (slabs (put_write mc slab len data))"
proof -
  have "slab_ok (slabs mc ! slab)" using assms by (simp add: list_all_length)
  then have "slab_ok (slabs (put_write mc slab len data) ! slab)"
    using assms(1) by (rule put_write_slab_ok[rotated])
  then show ?thesis
    using assms
    by (subst slabs_put_write) (auto simp: list_all_length nth_list_update put_write_fields)
qed

lemma put_no_fault:
  assumes "slab < length (slabs mc)" "slab_ok (slabs mc ! slab)" "unat len \<le> length data"
  shows "\<not> (MC_SLAB_BUFFER_SIZE < unat (size_s (slabs mc ! slab)) + unat (put_amt mc slab len)
            \<or> length data < unat (put_amt mc slab len))"
proof -
  have "unat (put_amt mc slab len) \<le> unat len"
    using put_amt_le[of mc slab len] by (simp add: word_le_nat_alt)
  then show ?thesis
    using put_fits[OF assms(1,2), of len] assms(3) by auto
qed

lemma memcpy_from_append:
  "memcpy_from b off (n + m) = memcpy_from b off n @ memcpy_from b (off + n) m"
proof -
  have "[off ..< off + n + m] = [off ..< off + n] @ [off + n ..< off + n + m]"
    by (rule upt_add_eq_append) simp
  then show ?thesis
    by (simp add: memcpy_from_def add.assoc)
qed

lemma memcpy_from_to_other:
  "off + n \<le> off' \<Longrightarrow> memcpy_from (memcpy_to b off' data) off n = memcpy_from b off n"
  by (simp add: memcpy_from_def memcpy_to_def)

lemma memcpy_from_to_same:
  "memcpy_from (memcpy_to b off data) off (length data) = map Some data"
  by (auto simp: memcpy_from_def memcpy_to_def intro!: nth_equalityI)

lemma put_write_remaining:
  assumes "slab < length (slabs mc)" "slab_ok (slabs mc ! slab)" "unat len \<le> length data"
  shows "remaining (slabs (put_write mc slab len data) ! slab)
         = remaining (slabs mc ! slab) @ map Some (take (unat (put_amt mc slab len)) data)"
proof -
  let ?s = "slabs mc ! slab"
  let ?p = "unat (put_amt mc slab len)"
  let ?b = "memcpy_to (buf ?s) (unat (size_s ?s)) (take ?p data)"
  let ?r = "unat (read ?s)"
  let ?z = "unat (size_s ?s)"
  have a: "unat (size_s ?s + put_amt mc slab len) = ?z + ?p"
    using assms(1,2) by (rule unat_size_after_put)
  have rl: "?r \<le> ?z"
    using assms by (simp add: slab_ok_def word_le_nat_alt)
  have pl: "?p \<le> length data"
    using put_no_fault[OF assms] by simp
  then have lt: "length (take ?p data) = ?p" by simp
  have split: "?z + ?p - ?r = (?z - ?r) + ?p"
    using rl by simp
  have off: "?r + (?z - ?r) = ?z" using rl by simp
  have "memcpy_from ?b ?r ((?z - ?r) + ?p)
        = memcpy_from ?b ?r (?z - ?r) @ memcpy_from ?b (?r + (?z - ?r)) ?p"
    by (rule memcpy_from_append)
  also have "memcpy_from ?b ?r (?z - ?r) = memcpy_from (buf ?s) ?r (?z - ?r)"
    by (rule memcpy_from_to_other) (simp add: off)
  also have "memcpy_from ?b (?r + (?z - ?r)) ?p = map Some (take ?p data)"
    using memcpy_from_to_same[of "buf ?s" ?z "take ?p data"] pl by (simp add: off min_absorb2)
  finally have "memcpy_from ?b ?r (?z + ?p - ?r)
        = memcpy_from (buf ?s) ?r (?z - ?r) @ map Some (take ?p data)"
    by (simp add: split)
  then show ?thesis
    using assms(1) a by (simp add: remaining_def put_write_nth)
qed

lemma content_from_step:
  "i < length ss \<Longrightarrow> content_from ss i = remaining (ss ! i) @ content_from ss (Suc i)"
  by (simp add: content_from_def Cons_nth_drop_Suc[symmetric])

lemma content_from_cong:
  "drop i ss = drop i ss' \<Longrightarrow> content_from ss i = content_from ss' i"
  by (simp add: content_from_def)

lemma sum_list_update_group:
  fixes xs :: "'a :: ab_group_add list"
  shows "i < length xs \<Longrightarrow> sum_list (xs[i := y]) = sum_list xs - xs ! i + y"
proof (induction xs arbitrary: i)
  case Nil
  then show ?case by simp
next
  case (Cons x xs)
  then show ?case by (cases i) (simp_all add: algebra_simps)
qed

lemma sum_sizes_update:
  "i < length ss \<Longrightarrow> sum_sizes (ss[i := s]) = sum_sizes ss - size_s (ss ! i) + size_s s"
  using sum_list_update_group[of i "map size_s ss" "size_s s"]
  by (simp add: sum_sizes_def map_update)

lemma sum_sizes_append: "sum_sizes (ss @ ts) = sum_sizes ss + sum_sizes ts"
  by (simp add: sum_sizes_def)

lemma tail_empty_nth:
  "tail_empty ss c \<Longrightarrow> c < j \<Longrightarrow> j < length ss \<Longrightarrow> size_s (ss ! j) = 0"
proof -
  assume a: "tail_empty ss c" and b: "c < j" and d: "j < length ss"
  have "j - Suc c < length (drop (Suc c) ss)" using b d by simp
  then have "size_s (drop (Suc c) ss ! (j - Suc c)) = 0"
    using a by (simp only: tail_empty_def list_all_length)
  then show ?thesis using b d by simp
qed

lemma list_all_drop_mono:
  assumes "list_all P (drop n xs)" "n \<le> m"
  shows "list_all P (drop m xs)"
proof -
  have "set (drop m xs) \<subseteq> set (drop n xs)"
    using assms(2) by (rule set_drop_subset_set_drop)
  then show ?thesis
    using assms(1) by (auto simp: list_all_iff)
qed

text \<open>The state after \<open>mc_slab_next\<close>, from a slab of the ring.\<close>

lemma mc_slab_next_spec:
  assumes "slab < length (slabs m)" "list_all slab_ok (slabs m)"
  shows "\<exists>m2. mc_slab_next m slab = Some (m2, Suc slab)
           \<and> list_all slab_ok (slabs m2)
           \<and> take (Suc slab) (slabs m2) = take (Suc slab) (slabs m)
           \<and> drop (Suc (Suc slab)) (slabs m2) = drop (Suc (Suc slab)) (slabs m)
           \<and> Suc slab < length (slabs m2)
           \<and> size_s (slabs m2 ! Suc slab) = 0 \<and> read (slabs m2 ! Suc slab) = 0
           \<and> length (slabs m) \<le> length (slabs m2)
           \<and> nb_slabs m2 - int (length (slabs m2)) = nb_slabs m - int (length (slabs m))
           \<and> strikes m2 = strikes m \<and> slab_total m2 = slab_total m
           \<and> curr_slab m2 = Some (Suc slab)
           \<and> (tail_empty (slabs m) slab \<longrightarrow>
                tail_empty (slabs m2) (Suc slab) \<and> sum_sizes (slabs m2) = sum_sizes (slabs m))"
proof (cases "Suc slab < length (slabs m)")
  case True
  define m2 where "m2 = m\<lparr>curr_slab := Some (Suc slab),
      slabs := (slabs m)[Suc slab := (slabs m ! Suc slab)\<lparr>size_s := 0, read := 0\<rparr>]\<rparr>"
  have n: "mc_slab_next m slab = Some (m2, Suc slab)"
    using True assms(1) by (simp add: mc_slab_next_def slab_next_ptr_def Let_def m2_def)
  have ok: "list_all slab_ok (slabs m2)"
    using assms(2) True
    by (auto simp: m2_def list_all_length nth_list_update slab_ok_def)
  have te: "tail_empty (slabs m) slab \<longrightarrow>
      tail_empty (slabs m2) (Suc slab) \<and> sum_sizes (slabs m2) = sum_sizes (slabs m)"
  proof
    assume a: "tail_empty (slabs m) slab"
    have z: "size_s (slabs m ! Suc slab) = 0"
      using tail_empty_nth[OF a, of "Suc slab"] True by simp
    have "drop (Suc (Suc slab)) (slabs m2) = drop (Suc (Suc slab)) (slabs m)"
      by (simp add: m2_def)
    moreover have "list_all (\<lambda>s. size_s s = 0) (drop (Suc (Suc slab)) (slabs m))"
      using a unfolding tail_empty_def by (rule list_all_drop_mono) simp
    ultimately have "tail_empty (slabs m2) (Suc slab)"
      by (simp add: tail_empty_def)
    moreover have "sum_sizes (slabs m2) = sum_sizes (slabs m)"
      using True z by (simp add: m2_def sum_sizes_update)
    ultimately show "tail_empty (slabs m2) (Suc slab) \<and> sum_sizes (slabs m2) = sum_sizes (slabs m)"
      by simp
  qed
  show ?thesis
    using n ok te True by (intro exI[of _ m2]) (simp add: m2_def)
next
  case False
  then have last: "Suc slab = length (slabs m)" using assms(1) by simp
  define m2 where "m2 = m\<lparr>nb_slabs := nb_slabs m + 1, slabs := slabs m @ [malloc_slab 0 0],
      curr_slab := Some (Suc slab)\<rparr>"
  have upd: "(slabs m @ [malloc_slab 0 0])[Suc slab :=
        ((slabs m @ [malloc_slab 0 0]) ! Suc slab)\<lparr>size_s := 0, read := 0\<rparr>]
      = slabs m @ [malloc_slab 0 0]"
    using last by (simp add: malloc_slab_def nth_append list_update_append)
  have n: "mc_slab_next m slab = Some (m2, Suc slab)"
    using False assms(1) upd
    by (simp add: mc_slab_next_def slab_next_ptr_def Let_def m2_def)
  have ok: "list_all slab_ok (slabs m2)"
    using assms(2) by (simp add: m2_def slab_ok_def malloc_slab_def)
  have te: "tail_empty (slabs m2) (Suc slab) \<and> sum_sizes (slabs m2) = sum_sizes (slabs m)"
    using last by (simp add: m2_def tail_empty_def sum_sizes_def malloc_slab_def)
  show ?thesis
    using n ok te last
    by (intro exI[of _ m2]) (simp add: m2_def nth_append malloc_slab_def)
qed

text \<open>
  What the loop of \<open>mc_put_buffer\<close> leaves, started at the slab \<open>slab\<close> with \<open>len\<close>
  bytes of \<open>data\<close> to write: the cursor \<open>c\<close>, the totals, and the bytes of the ring
  from \<open>slab\<close> on.
\<close>

definition put_post :: "MCParams \<Rightarrow> nat \<Rightarrow> u64 \<Rightarrow> u8 list \<Rightarrow> MCParams \<Rightarrow> nat \<Rightarrow> bool" where
  "put_post mc slab len data mc1 c =
     (list_all slab_ok (slabs mc1) \<and> curr_slab mc1 = Some c \<and> slab \<le> c
      \<and> c < length (slabs mc1) \<and> length (slabs mc) \<le> length (slabs mc1)
      \<and> nb_slabs mc1 - int (length (slabs mc1)) = nb_slabs mc - int (length (slabs mc))
      \<and> strikes mc1 = strikes mc
      \<and> slab_total mc1 = slab_total mc + len
      \<and> take slab (slabs mc1) = take slab (slabs mc)
      \<and> read (slabs mc1 ! slab) = read (slabs mc ! slab)
      \<and> (\<exists>rest. content_from (slabs mc1) slab
                    = remaining (slabs mc ! slab) @ map Some (take (unat len) data) @ rest)
      \<and> (\<not> tail_empty (slabs mc) slab
           \<or> tail_empty (slabs mc1) c \<and> sum_sizes (slabs mc1) = sum_sizes (slabs mc) + len))"

lemma put_post_zero:
  assumes "slab < length (slabs mc)" "list_all slab_ok (slabs mc)" "curr_slab mc = Some slab"
  shows "put_post mc slab 0 data mc slab"
  using assms content_from_step[of slab "slabs mc"]
  by (simp add: put_post_def)

lemma put_post_last:
  assumes pre: "slab < length (slabs mc)" "list_all slab_ok (slabs mc)"
      "curr_slab mc = Some slab" "unat len \<le> length data"
    and fin: "len - put_amt mc slab len = 0"
  shows "put_post mc slab len data (put_write mc slab len data) slab"
proof -
  let ?m = "put_write mc slab len data"
  have ok: "slab_ok (slabs mc ! slab)" using pre by (simp add: list_all_length)
  have pl: "put_amt mc slab len = len" using fin by simp
  have sl: "slabs ?m = (slabs mc)[slab := slabs ?m ! slab]" by (rule slabs_put_write)
  have dr: "drop (Suc slab) (slabs ?m) = drop (Suc slab) (slabs mc)"
    by (subst sl) simp
  have tk: "take slab (slabs ?m) = take slab (slabs mc)"
    by (subst sl) simp
  have "content_from (slabs ?m) slab = remaining (slabs ?m ! slab) @ content_from (slabs ?m) (Suc slab)"
    using pre(1) by (simp add: content_from_step put_write_fields)
  also have "remaining (slabs ?m ! slab)
      = remaining (slabs mc ! slab) @ map Some (take (unat len) data)"
    using put_write_remaining[OF pre(1) ok pre(4)] pl by simp
  finally have ct: "\<exists>rest. content_from (slabs ?m) slab
      = remaining (slabs mc ! slab) @ map Some (take (unat len) data) @ rest"
    by simp
  have sm: "sum_sizes (slabs ?m) = sum_sizes (slabs mc) + len"
    using pre(1) pl by (subst sl) (simp add: sum_sizes_update put_write_nth)
  have te: "tail_empty (slabs ?m) slab = tail_empty (slabs mc) slab"
    by (simp add: tail_empty_def dr)
  show ?thesis
    using pre put_write_all_ok[OF pre(1,2), of len data] tk ct sm te pl
    by (simp add: put_post_def put_write_fields put_write_nth)
qed

lemma put_post_step:
  assumes pre: "slab < length (slabs mc)" "list_all slab_ok (slabs mc)"
      "curr_slab mc = Some slab" "unat len \<le> length data"
    and nxt: "mc_slab_next (put_write mc slab len data) slab = Some (m2, slab2)"
    and ih: "put_post m2 slab2 (len - put_amt mc slab len)
               (drop (unat (put_amt mc slab len)) data) mc1 c"
  shows "put_post mc slab len data mc1 c"
proof -
  let ?m = "put_write mc slab len data"
  let ?p = "put_amt mc slab len"
  have ok: "slab_ok (slabs mc ! slab)" using pre by (simp add: list_all_length)
  have mlen: "slab < length (slabs ?m)" using pre(1) by (simp add: put_write_fields)
  have mok: "list_all slab_ok (slabs ?m)" using pre(1,2) by (rule put_write_all_ok)
  obtain m2' where sp: "mc_slab_next ?m slab = Some (m2', Suc slab)"
      "take (Suc slab) (slabs m2') = take (Suc slab) (slabs ?m)"
      "Suc slab < length (slabs m2')"
      "size_s (slabs m2' ! Suc slab) = 0" "read (slabs m2' ! Suc slab) = 0"
      "length (slabs ?m) \<le> length (slabs m2')"
      "nb_slabs m2' - int (length (slabs m2')) = nb_slabs ?m - int (length (slabs ?m))"
      "strikes m2' = strikes ?m" "slab_total m2' = slab_total ?m"
      "tail_empty (slabs ?m) slab \<longrightarrow>
         tail_empty (slabs m2') (Suc slab) \<and> sum_sizes (slabs m2') = sum_sizes (slabs ?m)"
    using mc_slab_next_spec[OF mlen mok] by blast
  have eq: "m2' = m2" "slab2 = Suc slab" using sp(1) nxt by simp_all
  have sl: "slabs ?m = (slabs mc)[slab := slabs ?m ! slab]" by (rule slabs_put_write)
  have tk1: "take (Suc slab) (slabs mc1) = take (Suc slab) (slabs ?m)"
    using ih sp(2) by (simp add: put_post_def eq)
  have nth1: "slabs mc1 ! slab = slabs ?m ! slab"
  proof -
    have "take (Suc slab) (slabs mc1) ! slab = take (Suc slab) (slabs ?m) ! slab"
      by (simp only: tk1)
    then show ?thesis by simp
  qed
  have tk: "take slab (slabs mc1) = take slab (slabs mc)"
  proof -
    have "take slab (take (Suc slab) (slabs mc1)) = take slab (take (Suc slab) (slabs ?m))"
      by (simp only: tk1)
    then have "take slab (slabs mc1) = take slab (slabs ?m)" by simp
    also have "\<dots> = take slab (slabs mc)" by (subst sl) simp
    finally show ?thesis .
  qed
  have len1: "slab < length (slabs mc1)"
    using ih by (simp add: put_post_def eq)
  have un: "unat (len - ?p) = unat len - unat ?p" by (rule unat_len_minus_put)
  have ple: "unat ?p \<le> unat len" using put_amt_le[of mc slab len] by (simp add: word_le_nat_alt)
  obtain rest where r: "content_from (slabs mc1) (Suc slab)
      = remaining (slabs m2 ! Suc slab) @ map Some (take (unat (len - ?p)) (drop (unat ?p) data)) @ rest"
    using ih by (auto simp: put_post_def eq)
  have rz: "remaining (slabs m2 ! Suc slab) = []"
    using sp(4,5) by (simp add: remaining_def memcpy_from_def eq)
  have "content_from (slabs mc1) slab = remaining (slabs mc1 ! slab) @ content_from (slabs mc1) (Suc slab)"
    using len1 by (rule content_from_step)
  also have "remaining (slabs mc1 ! slab)
      = remaining (slabs mc ! slab) @ map Some (take (unat ?p) data)"
    using put_write_remaining[OF pre(1) ok pre(4)] nth1 by simp
  finally have "content_from (slabs mc1) slab
      = remaining (slabs mc ! slab)
        @ map Some (take (unat ?p) data @ take (unat len - unat ?p) (drop (unat ?p) data)) @ rest"
    by (simp add: r rz un)
  moreover have "take (unat ?p) data @ take (unat len - unat ?p) (drop (unat ?p) data)
      = take (unat len) data"
    using ple take_add[of "unat ?p" "unat len - unat ?p" data] by simp
  ultimately have ct: "\<exists>rest. content_from (slabs mc1) slab
      = remaining (slabs mc ! slab) @ map Some (take (unat len) data) @ rest"
    by auto
  have sm0: "sum_sizes (slabs ?m) = sum_sizes (slabs mc) + ?p"
    using pre(1) by (subst sl) (simp add: sum_sizes_update put_write_nth)
  have te0: "tail_empty (slabs ?m) slab = tail_empty (slabs mc) slab"
  proof -
    have "drop (Suc slab) (slabs ?m) = drop (Suc slab) (slabs mc)" by (subst sl) simp
    then show ?thesis by (simp add: tail_empty_def)
  qed
  have te: "\<not> tail_empty (slabs mc) slab
      \<or> tail_empty (slabs mc1) c \<and> sum_sizes (slabs mc1) = sum_sizes (slabs mc) + len"
  proof (cases "tail_empty (slabs mc) slab")
    case True
    then have "tail_empty (slabs m2) (Suc slab)" "sum_sizes (slabs m2) = sum_sizes (slabs ?m)"
      using sp(10) te0 by (simp_all add: eq)
    then have "tail_empty (slabs mc1) c"
        "sum_sizes (slabs mc1) = sum_sizes (slabs mc) + ?p + (len - ?p)"
      using ih sm0 by (simp_all add: put_post_def eq)
    then show ?thesis by simp
  next
    case False
    then show ?thesis by simp
  qed
  show ?thesis
    using ih sp pre(1) tk ct te nth1
    by (simp add: put_post_def eq put_write_fields put_write_nth)
qed

lemma mc_put_loop_spec:
  "slab < length (slabs mc) \<Longrightarrow> list_all slab_ok (slabs mc) \<Longrightarrow> curr_slab mc = Some slab
   \<Longrightarrow> unat len \<le> length data
   \<Longrightarrow> \<exists>mc1 c. mc_put_loop mc slab len data = Some mc1 \<and> put_post mc slab len data mc1 c"
proof (induction mc slab len data rule: mc_put_loop_induct)
  case (step mc slab len data)
  have ok: "slab_ok (slabs mc ! slab)" using step.prems by (simp add: list_all_length)
  have nf: "\<not> (MC_SLAB_BUFFER_SIZE < unat (size_s (slabs mc ! slab)) + unat (put_amt mc slab len)
            \<or> length data < unat (put_amt mc slab len))"
    using step.prems(1) ok step.prems(4) by (rule put_no_fault)
  show ?case
  proof (cases "len = 0")
    case True
    then show ?thesis
      using put_post_zero[OF step.prems(1-3)] by (subst mc_put_loop_unfold) auto
  next
    case False
    show ?thesis
    proof (cases "len - put_amt mc slab len = 0")
      case True
      then show ?thesis
        using False nf step.prems(1) put_post_last[OF step.prems True]
        by (subst mc_put_loop_unfold) auto
    next
      case nz: False
      let ?m = "put_write mc slab len data"
      have mlen: "slab < length (slabs ?m)" using step.prems(1) by (simp add: put_write_fields)
      have mok: "list_all slab_ok (slabs ?m)" using step.prems(1,2) by (rule put_write_all_ok)
      obtain m2 where sp: "mc_slab_next ?m slab = Some (m2, Suc slab)"
          "list_all slab_ok (slabs m2)" "Suc slab < length (slabs m2)"
          "curr_slab m2 = Some (Suc slab)"
        using mc_slab_next_spec[OF mlen mok] by blast
      have "unat (len - put_amt mc slab len) \<le> length (drop (unat (put_amt mc slab len)) data)"
        using step.prems(4) by (simp add: unat_len_minus_put)
      then obtain mc1 c where r:
          "mc_put_loop m2 (Suc slab) (len - put_amt mc slab len)
             (drop (unat (put_amt mc slab len)) data) = Some mc1"
          "put_post m2 (Suc slab) (len - put_amt mc slab len)
             (drop (unat (put_amt mc slab len)) data) mc1 c"
        using step.IH[OF False step.prems(1) nf nz sp(1) sp(3) sp(2) sp(4)] by blast
      have "put_post mc slab len data mc1 c"
        using step.prems sp(1) r(2) by (rule put_post_step)
      then show ?thesis
        using False nf step.prems(1) nz sp(1) r(1)
        by (subst mc_put_loop_unfold) auto
    qed
  qed
qed

definition get_amt :: "MCParams \<Rightarrow> nat \<Rightarrow> u64 \<Rightarrow> u64" where
  "get_amt mc i len = min (size_s (slabs mc ! i) - read (slabs mc ! i)) len"

definition get_read :: "MCParams \<Rightarrow> nat \<Rightarrow> u64 \<Rightarrow> MCParams" where
  "get_read mc i len =
     mc\<lparr>slabs := (slabs mc)[i := (slabs mc ! i)\<lparr>read := read (slabs mc ! i) + get_amt mc i len\<rparr>],
         slab_total := slab_total mc - get_amt mc i len\<rparr>"

definition avail :: "MCSlab list \<Rightarrow> nat option \<Rightarrow> u8 option list" where
  "avail ss slab = (case slab of None \<Rightarrow> [] | Some i \<Rightarrow> content_from ss i)"

lemma mc_get_loop_unfold:
  "mc_get_loop mc slab len out =
     (case slab of
        None \<Rightarrow> Some (mc, len, out)
      | Some i \<Rightarrow>
          if len = 0 then Some (mc, len, out)
          else if length (slabs mc) \<le> i then None
          else if MC_SLAB_BUFFER_SIZE < unat (read (slabs mc ! i)) + unat (get_amt mc i len)
            then None
          else if len - get_amt mc i len \<noteq> 0 then
            mc_get_loop ((get_read mc i len)\<lparr>curr_slab := slab_next_ptr (get_read mc i len) i\<rparr>)
              (slab_next_ptr (get_read mc i len) i) (len - get_amt mc i len)
              (out @ memcpy_from (buf (slabs mc ! i)) (unat (read (slabs mc ! i)))
                       (unat (get_amt mc i len)))
          else Some (get_read mc i len, len - get_amt mc i len,
                     out @ memcpy_from (buf (slabs mc ! i)) (unat (read (slabs mc ! i)))
                             (unat (get_amt mc i len))))"
  apply (subst mc_get_loop.simps)
  apply (unfold Let_def get_amt_def get_read_def)
  apply (rule refl)
  done

lemma mc_get_loop_induct [case_names step]:
  assumes "\<And>mc slab len out.
     (\<And>i. slab = Some i \<Longrightarrow> len \<noteq> 0 \<Longrightarrow> i < length (slabs mc)
        \<Longrightarrow> \<not> MC_SLAB_BUFFER_SIZE < unat (read (slabs mc ! i)) + unat (get_amt mc i len)
        \<Longrightarrow> len - get_amt mc i len \<noteq> 0
        \<Longrightarrow> P ((get_read mc i len)\<lparr>curr_slab := slab_next_ptr (get_read mc i len) i\<rparr>)
              (slab_next_ptr (get_read mc i len) i) (len - get_amt mc i len)
              (out @ memcpy_from (buf (slabs mc ! i)) (unat (read (slabs mc ! i)))
                       (unat (get_amt mc i len))))
     \<Longrightarrow> P mc slab len out"
  shows "P mc slab len out"
proof (induction mc slab len out rule: mc_get_loop.induct)
  case (1 mc slab len out)
  show ?case
  proof (rule assms, goal_cases)
    case (1 i)
    then show ?case
      using "1.IH"[of i "slabs mc ! i" "get_amt mc i len"]
      by (simp add: get_amt_def get_read_def)
  qed
qed

lemma unat_get_amt:
  assumes "slab_ok (slabs mc ! i)"
  shows "unat (get_amt mc i len)
         = min (unat (size_s (slabs mc ! i)) - unat (read (slabs mc ! i))) (unat len)"
proof -
  have "unat (size_s (slabs mc ! i) - read (slabs mc ! i))
        = unat (size_s (slabs mc ! i)) - unat (read (slabs mc ! i))"
    using assms by (simp add: slab_ok_def unat_sub)
  then show ?thesis
    by (simp add: get_amt_def min_def word_le_nat_alt)
qed

lemma get_amt_le: "get_amt mc i len \<le> len"
  by (simp add: get_amt_def)

lemma unat_len_minus_get: "unat (len - get_amt mc i len) = unat len - unat (get_amt mc i len)"
  using get_amt_le by (simp add: unat_sub)

lemma get_fits:
  assumes "slab_ok (slabs mc ! i)"
  shows "unat (read (slabs mc ! i)) + unat (get_amt mc i len) \<le> unat (size_s (slabs mc ! i))"
    and "unat (size_s (slabs mc ! i)) \<le> MC_SLAB_BUFFER_SIZE"
proof -
  have "unat (read (slabs mc ! i)) \<le> unat (size_s (slabs mc ! i))"
    using assms by (simp add: slab_ok_def word_le_nat_alt)
  then show "unat (read (slabs mc ! i)) + unat (get_amt mc i len) \<le> unat (size_s (slabs mc ! i))"
    using unat_get_amt[OF assms, of len] by arith
  show "unat (size_s (slabs mc ! i)) \<le> MC_SLAB_BUFFER_SIZE"
    using assms by (simp add: slab_ok_def)
qed

lemma map_update_same: "(map f xs)[i := f (xs ! i)] = map f xs"
  by (cases "i < length xs") (simp_all add: list_update_beyond list_update_same_conv)

lemma unat_u64_bound: "unat (w :: u64) < 2 ^ 64"
  using unsigned_less[of w] by simp

lemma get_read_fields:
  "slab_total (get_read mc i len) = slab_total mc - get_amt mc i len"
  "strikes (get_read mc i len) = strikes mc"
  "nb_slabs (get_read mc i len) = nb_slabs mc"
  "length (slabs (get_read mc i len)) = length (slabs mc)"
  "map size_s (slabs (get_read mc i len)) = map size_s (slabs mc)"
  "map buf (slabs (get_read mc i len)) = map buf (slabs mc)"
  "drop (Suc i) (slabs (get_read mc i len)) = drop (Suc i) (slabs mc)"
  "slab_next_ptr (get_read mc i len) i = slab_next_ptr mc i"
  by (simp_all add: get_read_def slab_next_ptr_def map_update map_update_same)

lemma get_read_all_ok:
  assumes "i < length (slabs mc)" "list_all slab_ok (slabs mc)"
  shows "list_all slab_ok (slabs (get_read mc i len))"
proof -
  have ok: "slab_ok (slabs mc ! i)" using assms by (simp add: list_all_length)
  have le: "unat (read (slabs mc ! i)) + unat (get_amt mc i len) \<le> unat (size_s (slabs mc ! i))"
    using ok by (rule get_fits(1))
  then have "unat (read (slabs mc ! i)) + unat (get_amt mc i len) < 2 ^ 64"
    using unat_u64_bound[of "size_s (slabs mc ! i)"] by simp
  then have "unat (read (slabs mc ! i) + get_amt mc i len)
      = unat (read (slabs mc ! i)) + unat (get_amt mc i len)"
    by (simp add: unat_add_lem[THEN iffD1])
  then have "slab_ok ((slabs mc ! i)\<lparr>read := read (slabs mc ! i) + get_amt mc i len\<rparr>)"
    using le ok by (simp add: slab_ok_def word_le_nat_alt)
  then show ?thesis
    using assms by (auto simp: get_read_def list_all_length nth_list_update)
qed

lemma memcpy_from_take:
  "n \<le> m \<Longrightarrow> memcpy_from b off n = take n (memcpy_from b off m)"
  by (simp add: memcpy_from_def take_map min_absorb2)

lemma get_bytes:
  assumes "slab_ok (slabs mc ! i)"
  shows "memcpy_from (buf (slabs mc ! i)) (unat (read (slabs mc ! i))) (unat (get_amt mc i len))
         = take (unat len) (remaining (slabs mc ! i))"
proof -
  let ?a = "unat (size_s (slabs mc ! i)) - unat (read (slabs mc ! i))"
  have g: "unat (get_amt mc i len) = min ?a (unat len)" using assms by (rule unat_get_amt)
  then have "unat (get_amt mc i len) \<le> ?a" by simp
  then have "memcpy_from (buf (slabs mc ! i)) (unat (read (slabs mc ! i))) (unat (get_amt mc i len))
      = take (unat (get_amt mc i len)) (remaining (slabs mc ! i))"
    unfolding remaining_def by (rule memcpy_from_take)
  also have "\<dots> = take (unat len) (remaining (slabs mc ! i))"
    by (simp add: g remaining_def memcpy_from_def min_def)
  finally show ?thesis .
qed

lemma length_remaining:
  "length (remaining s) = unat (size_s s) - unat (read s)"
  by (simp add: remaining_def memcpy_from_def)

text \<open>
  What the loop of \<open>mc_get_buffer\<close> leaves, started at \<open>slab\<close> with \<open>len\<close> bytes to
  read: \<open>n\<close> bytes were read.
\<close>

definition valid_ptr :: "MCParams \<Rightarrow> nat option \<Rightarrow> bool" where
  "valid_ptr mc slab = (case slab of None \<Rightarrow> True | Some i \<Rightarrow> i < length (slabs mc))"

definition get_post :: "MCParams \<Rightarrow> u64 \<Rightarrow> nat \<Rightarrow> MCParams \<Rightarrow> u64 \<Rightarrow> bool" where
  "get_post mc len n mc1 len1 =
     (list_all slab_ok (slabs mc1)
      \<and> map size_s (slabs mc1) = map size_s (slabs mc)
      \<and> map buf (slabs mc1) = map buf (slabs mc)
      \<and> nb_slabs mc1 = nb_slabs mc \<and> strikes mc1 = strikes mc
      \<and> unat len1 = unat len - n
      \<and> slab_total mc1 = slab_total mc - (len - len1)
      \<and> valid_ptr mc1 (curr_slab mc1))"

lemma avail_next:
  assumes "i < length (slabs mc)"
  shows "avail (slabs (get_read mc i len)) (slab_next_ptr (get_read mc i len) i)
         = content_from (slabs mc) (Suc i)"
proof (cases "Suc i < length (slabs mc)")
  case True
  then show ?thesis
    using content_from_cong[of "Suc i" "slabs (get_read mc i len)" "slabs mc"]
    by (simp add: avail_def get_read_fields slab_next_ptr_def)
next
  case False
  then show ?thesis
    by (simp add: avail_def get_read_fields slab_next_ptr_def content_from_def)
qed

lemma mc_get_loop_spec:
  "list_all slab_ok (slabs mc) \<Longrightarrow> valid_ptr mc slab \<Longrightarrow> valid_ptr mc (curr_slab mc) \<Longrightarrow>
   \<exists>mc1 len1. mc_get_loop mc slab len out
                 = Some (mc1, len1, out @ take (unat len) (avail (slabs mc) slab))
               \<and> get_post mc len (length (take (unat len) (avail (slabs mc) slab))) mc1 len1"
proof (induction mc slab len out rule: mc_get_loop_induct)
  case (step mc slab len out)
  show ?case
  proof (cases slab)
    case None
    then show ?thesis
      using step.prems by (subst mc_get_loop_unfold) (simp add: avail_def get_post_def)
  next
    case (Some i)
    then have il: "i < length (slabs mc)" using step.prems(2) by (simp add: valid_ptr_def)
    have ok: "slab_ok (slabs mc ! i)" using step.prems(1) il by (simp add: list_all_length)
    show ?thesis
    proof (cases "len = 0")
      case True
      then show ?thesis
        using Some step.prems by (subst mc_get_loop_unfold) (simp add: get_post_def)
    next
      case False
      let ?g = "get_amt mc i len"
      let ?m = "get_read mc i len"
      let ?bytes = "memcpy_from (buf (slabs mc ! i)) (unat (read (slabs mc ! i))) (unat ?g)"
      have nf: "\<not> MC_SLAB_BUFFER_SIZE < unat (read (slabs mc ! i)) + unat ?g"
        using get_fits(1)[OF ok, of len] get_fits(2)[OF ok] by simp
      have bytes_eq: "?bytes = take (unat len) (remaining (slabs mc ! i))"
        using ok by (rule get_bytes)
      have av: "avail (slabs mc) slab = remaining (slabs mc ! i) @ content_from (slabs mc) (Suc i)"
        using Some il by (simp add: avail_def content_from_step)
      have mok: "list_all slab_ok (slabs ?m)" using il step.prems(1) by (rule get_read_all_ok)
      have ug: "unat ?g = min (length (remaining (slabs mc ! i))) (unat len)"
        using unat_get_amt[OF ok, of len] by (simp add: length_remaining)
      show ?thesis
      proof (cases "len - ?g = 0")
        case True
        then have gl: "?g = len" by simp
        then have le: "unat len \<le> length (remaining (slabs mc ! i))"
          using ug by simp
        have "valid_ptr ?m (curr_slab ?m)"
          using step.prems(3) by (simp add: valid_ptr_def get_read_def split: option.splits)
        then have gp: "get_post mc len (length (take (unat len) (avail (slabs mc) slab))) ?m (len - ?g)"
          using mok le gl by (simp add: get_post_def get_read_fields av)
        have tk0: "take (unat len) (avail (slabs mc) slab) = ?bytes"
          using le bytes_eq by (simp add: av)
        have "mc_get_loop mc slab len out = Some (?m, len - ?g, out @ ?bytes)"
          using False il nf True
          by (subst mc_get_loop_unfold) (simp add: Some)
        then show ?thesis
          using gp by (simp only: tk0) blast
      next
        case nz: False
        then have "?g \<noteq> len" by simp
        then have "unat ?g \<noteq> unat len" by (simp add: word_unat_eq_iff)
        then have all: "unat ?g = length (remaining (slabs mc ! i))"
            "length (remaining (slabs mc ! i)) < unat len"
          using ug by (simp_all add: min_def split: if_splits)
        let ?m' = "?m\<lparr>curr_slab := slab_next_ptr ?m i\<rparr>"
        have vp: "valid_ptr ?m' (slab_next_ptr ?m i)"
          by (simp add: valid_ptr_def slab_next_ptr_def split: option.splits)
        have mok': "list_all slab_ok (slabs ?m')" using mok by simp
        obtain mc1 len1 where r:
            "mc_get_loop ?m' (slab_next_ptr ?m i) (len - ?g) (out @ ?bytes)
             = Some (mc1, len1, (out @ ?bytes)
                  @ take (unat (len - ?g)) (avail (slabs ?m') (slab_next_ptr ?m i)))"
            "get_post ?m' (len - ?g)
               (length (take (unat (len - ?g)) (avail (slabs ?m') (slab_next_ptr ?m i)))) mc1 len1"
          using step.IH[OF Some False il nf nz mok' vp] vp by auto
        have av': "avail (slabs ?m) (slab_next_ptr ?m i) = content_from (slabs mc) (Suc i)"
          using il by (rule avail_next)
        have av2: "avail (slabs ?m) (slab_next_ptr mc i) = content_from (slabs mc) (Suc i)"
          using av' by (simp only: get_read_fields(8))
        have bytes_all: "?bytes = remaining (slabs mc ! i)"
          using bytes_eq all by simp
        have tk: "take (unat len) (avail (slabs mc) slab)
            = remaining (slabs mc ! i) @ take (unat (len - ?g)) (content_from (slabs mc) (Suc i))"
          using all by (simp add: av unat_len_minus_get)
        have outeq: "(out @ ?bytes) @ take (unat (len - ?g)) (avail (slabs ?m') (slab_next_ptr ?m i))
            = out @ take (unat len) (avail (slabs mc) slab)"
          by (simp add: av' bytes_all tk)
        have "get_post mc len (length (take (unat len) (avail (slabs mc) slab))) mc1 len1"
          using r(2) all
          by (simp add: get_post_def get_read_fields av2 tk unat_len_minus_get)
        moreover have "mc_get_loop mc slab len out
            = mc_get_loop ?m' (slab_next_ptr ?m i) (len - ?g) (out @ ?bytes)"
          using False il nf nz
          by (subst mc_get_loop_unfold) (simp add: Some)
        ultimately show ?thesis
          using r(1) by (simp only: outeq) blast
      qed
    qed
  qed
qed

text \<open>
  The ring as the operations keep it: the head is there, every slab holds at most its
  capacity and was read at most as far as it is filled, \<open>nb_slabs\<close> counts the slabs,
  and the cursor is a slab of the ring or \<open>NULL\<close>.
\<close>

definition ring_wf :: "MCParams \<Rightarrow> bool" where
  "ring_wf mc =
     (slabs mc \<noteq> [] \<and> list_all slab_ok (slabs mc)
      \<and> nb_slabs mc = int (length (slabs mc)) \<and> valid_ptr mc (curr_slab mc))"

text \<open>The ring right after the reset for a checkpoint: the cursor at the empty head.\<close>

definition ring_fresh :: "MCParams \<Rightarrow> bool" where
  "ring_fresh mc =
     (curr_slab mc = Some 0 \<and> size_s (hd (slabs mc)) = 0 \<and> read (hd (slabs mc)) = 0)"

lemma unat_of_nat_u64: "n < 2 ^ 64 \<Longrightarrow> unat (of_nat n :: u64) = n"
  by (simp add: unat_of_nat take_bit_nat_eq_self)

lemma mc_put_buffer_spec:
  assumes "ring_wf mc" "curr_slab mc = Some slab" "length data < 2 ^ 64"
  shows "\<exists>mc1 c. mc_put_buffer mc data = Some (mc1, int (length data))
           \<and> put_post mc slab (of_nat (length data)) data mc1 c \<and> ring_wf mc1"
proof -
  have sl: "slab < length (slabs mc)"
    using assms(1,2) by (simp add: ring_wf_def valid_ptr_def)
  have ok: "list_all slab_ok (slabs mc)" using assms(1) by (simp add: ring_wf_def)
  have ul: "unat (of_nat (length data) :: u64) \<le> length data"
    using assms(3) by (simp add: unat_of_nat_u64)
  obtain mc1 c where r: "mc_put_loop mc slab (of_nat (length data)) data = Some mc1"
      "put_post mc slab (of_nat (length data)) data mc1 c"
    using mc_put_loop_spec[OF sl ok assms(2) ul] by blast
  have "ring_wf mc1"
    using r(2) assms(1) by (auto simp: ring_wf_def put_post_def valid_ptr_def)
  moreover have "mc_put_buffer mc data = Some (mc1, int (length data))"
    using r(1) assms(1,2) by (simp add: mc_put_buffer_def ring_wf_def)
  ultimately show ?thesis using r(2) by blast
qed

lemma mc_get_buffer_spec:
  assumes "ring_wf mc" "sz < 2 ^ 64"
  shows "\<exists>mc1. mc_get_buffer mc sz
             = Some (mc1, take sz (avail (slabs mc) (curr_slab mc)),
                     int (length (take sz (avail (slabs mc) (curr_slab mc)))))
           \<and> map size_s (slabs mc1) = map size_s (slabs mc)
           \<and> map buf (slabs mc1) = map buf (slabs mc)
           \<and> nb_slabs mc1 = nb_slabs mc \<and> strikes mc1 = strikes mc
           \<and> ring_wf mc1
           \<and> slab_total mc1
               = slab_total mc - of_nat (length (take sz (avail (slabs mc) (curr_slab mc))))"
proof -
  let ?out = "take sz (avail (slabs mc) (curr_slab mc))"
  have ok: "list_all slab_ok (slabs mc)" "valid_ptr mc (curr_slab mc)"
    using assms(1) by (simp_all add: ring_wf_def)
  have us: "unat (of_nat sz :: u64) = sz" using assms(2) by (rule unat_of_nat_u64)
  obtain mc1 len1 where r:
      "mc_get_loop mc (curr_slab mc) (of_nat sz) [] = Some (mc1, len1, [] @ ?out)"
      "get_post mc (of_nat sz) (length ?out) mc1 len1"
    using mc_get_loop_spec[OF ok ok(2), of "of_nat sz" "[]"] by (auto simp: us)
  have l1: "unat len1 = sz - length ?out" using r(2) by (simp add: get_post_def us)
  have "length ?out \<le> sz" by simp
  then have "int sz - uint len1 = int (length ?out)"
    using l1 by (simp add: uint_nat)
  then have a: "mc_get_buffer mc sz = Some (mc1, ?out, int (length ?out))"
    using r(1) by (simp add: mc_get_buffer_def)
  have "(of_nat (unat len1) :: u64) = len1"
    by (simp add: of_nat_unat)
  then have "len1 = of_nat (sz - length ?out)"
    using l1 by simp
  then have "(of_nat sz :: u64) - len1 = of_nat (length ?out)"
    using \<open>length ?out \<le> sz\<close> by (simp add: of_nat_diff)
  then have "slab_total mc1 = slab_total mc - of_nat (length ?out)"
    using r(2) by (simp add: get_post_def)
  moreover have "ring_wf mc1"
  proof -
    have "length (map size_s (slabs mc1)) = length (map size_s (slabs mc))"
      using r(2) by (simp only: get_post_def)
    then have "length (slabs mc1) = length (slabs mc)" by simp
    then show ?thesis
      using r(2) assms(1) by (auto simp: get_post_def ring_wf_def)
  qed
  ultimately show ?thesis
    using a r(2) by (auto simp: get_post_def)
qed

text \<open>
  C2. For every byte sequence \<open>B\<close> of a length \<open>L\<close> that an \<open>int\<close> holds, writing
  \<open>B\<close> through the slab ring with \<open>mc_put_buffer\<close>, on a ring that was reset for a
  checkpoint, and then reading \<open>L\<close> bytes back from the head with \<open>mc_get_buffer\<close>
  yields exactly \<open>B\<close>: both calls return \<open>L\<close>, however many slabs the bytes fill.
\<close>

theorem slab_ring_round_trip:
  assumes "ring_wf mc" and "ring_fresh mc" and "length B < 2 ^ 31"
  shows "\<exists>mc1 mc2. mc_put_buffer mc B = Some (mc1, int (length B))
           \<and> mc_get_buffer (mc1\<lparr>curr_slab := Some 0\<rparr>) (length B)
               = Some (mc2, map Some B, int (length B))"
proof -
  have lb: "length B < 2 ^ 64" using assms(3) by simp
  have c0: "curr_slab mc = Some 0" using assms(2) by (simp add: ring_fresh_def)
  obtain mc1 c where p: "mc_put_buffer mc B = Some (mc1, int (length B))"
      "put_post mc 0 (of_nat (length B)) B mc1 c" "ring_wf mc1"
    using mc_put_buffer_spec[OF assms(1) c0 lb] by blast
  have ne: "slabs mc \<noteq> []" using assms(1) by (simp add: ring_wf_def)
  then have "remaining (slabs mc ! 0) = []"
    using assms(2) by (simp add: ring_fresh_def remaining_def memcpy_from_def hd_conv_nth)
  then obtain rest where ct: "content_from (slabs mc1) 0 = map Some B @ rest"
    using p(2) lb by (auto simp: put_post_def unat_of_nat_u64)
  let ?m = "mc1\<lparr>curr_slab := Some 0\<rparr>"
  have wf: "ring_wf ?m" using p(3) by (simp add: ring_wf_def valid_ptr_def)
  have "take (length B) (avail (slabs ?m) (curr_slab ?m)) = map Some B"
    by (simp add: avail_def ct)
  then obtain mc2 where "mc_get_buffer ?m (length B) = Some (mc2, map Some B, int (length B))"
    using mc_get_buffer_spec[OF wf lb] by auto
  then show ?thesis using p(1) by blast
qed

text \<open>The round trip of three bytes on the ring \<open>qemu_fopen_mc\<close> makes.\<close>

theorem slab_ring_round_trip_witness:
  "ring_wf (qemu_fopen_mc 0 0) \<and> ring_fresh (qemu_fopen_mc 0 0)
   \<and> length [1, 2, 3 :: u8] < 2 ^ 31
   \<and> (\<exists>mc1 mc2. mc_put_buffer (qemu_fopen_mc 0 0) [1, 2, 3] = Some (mc1, 3)
          \<and> mc_get_buffer (mc1\<lparr>curr_slab := Some 0\<rparr>) 3
              = Some (mc2, [Some 1, Some 2, Some 3], 3))"
proof -
  have h1: "ring_wf (qemu_fopen_mc 0 0)"
    by (simp add: ring_wf_def qemu_fopen_mc_def malloc_slab_def slab_ok_def valid_ptr_def)
  have h2: "ring_fresh (qemu_fopen_mc 0 0)"
    by (simp add: ring_fresh_def qemu_fopen_mc_def malloc_slab_def)
  have h3: "length [1, 2, 3 :: u8] < 2 ^ 31" by simp
  show ?thesis
    using h1 h2 h3 slab_ring_round_trip[OF h1 h2 h3] by (simp add: numeral_3_eq_3)
qed

subsection \<open>The reset for a checkpoint and the elastic sizing\<close>

lemma free_tail_slabs_spec:
  "n < length (slabs mc) \<Longrightarrow>
   free_tail_slabs n mc
     = Some (mc\<lparr>slabs := take (length (slabs mc) - n) (slabs mc),
                nb_slabs := nb_slabs mc - int n\<rparr>)"
proof (induction n arbitrary: mc)
  case 0
  then show ?case by simp
next
  case (Suc n)
  have "n < length (slabs (mc\<lparr>slabs := butlast (slabs mc), nb_slabs := nb_slabs mc - 1\<rparr>))"
    using Suc.prems by simp
  then show ?case
    using Suc.IH[of "mc\<lparr>slabs := butlast (slabs mc), nb_slabs := nb_slabs mc - 1\<rparr>"] Suc.prems
    by (simp add: butlast_conv_take take_take min_def)
qed

lemma c_div_nonneg: "0 \<le> a \<Longrightarrow> 0 < b \<Longrightarrow> c_div a b = a div b"
  by (cases "a = 0") (simp_all add: c_div_def sgn_if)

lemma word_le_of_int_u64:
  assumes "0 \<le> x" "x \<le> INT_MAX"
  shows "((w :: u64) \<le> word_of_int x) = (uint w \<le> x)"
proof -
  have "x < 2 ^ 64" using assms(2) by (simp add: INT_MAX_def)
  then have "uint (word_of_int x :: u64) = x"
    using assms(1) by (simp add: uint_word_of_int take_bit_int_eq_self)
  then show ?thesis by (simp add: word_le_def)
qed

text \<open>How many slabs a shrink frees.\<close>

definition nb_slabs_to_free :: "MCParams \<Rightarrow> int" where
  "nb_slabs_to_free mc = max 1 ((nb_slabs mc - 1) div 2)"

lemma mc_slab_start_policy_spec:
  assumes "ring_wf mc"
    and "strikes mc < ms \<Longrightarrow> (nb_slabs mc - 1) * int MC_SLAB_BUFFER_SIZE \<le> INT_MAX"
  shows "mc_slab_start_policy ms mc =
     Some (if 2 \<le> nb_slabs mc \<and> ms \<le> strikes mc
           then mc\<lparr>strikes := 0,
                   slabs := take (nat (nb_slabs mc - nb_slabs_to_free mc)) (slabs mc),
                   nb_slabs := nb_slabs mc - nb_slabs_to_free mc\<rparr>
           else if 2 \<le> nb_slabs mc
                   \<and> uint (slab_total mc) \<le> (nb_slabs mc - 1) * int MC_SLAB_BUFFER_SIZE
           then mc\<lparr>strikes := strikes mc + 1\<rparr>
           else mc\<lparr>strikes := 0\<rparr>)"
proof -
  have nb: "nb_slabs mc = int (length (slabs mc))" "slabs mc \<noteq> []"
    using assms(1) by (simp_all add: ring_wf_def)
  have z: "(if strikes mc \<noteq> 0 then mc\<lparr>strikes := 0\<rparr> else mc) = mc\<lparr>strikes := 0\<rparr>"
    by simp
  show ?thesis
  proof (cases "2 \<le> nb_slabs mc")
    case False
    then show ?thesis by (simp add: mc_slab_start_policy_def Let_def)
  next
    case True
    show ?thesis
    proof (cases "ms \<le> strikes mc")
      case False
      then have fits: "(nb_slabs mc - 1) * int MC_SLAB_BUFFER_SIZE \<le> INT_MAX"
        using assms(2) by simp
      have "0 \<le> (nb_slabs mc - 1) * int MC_SLAB_BUFFER_SIZE" using True by simp
      then have "(slab_total mc \<le> word_of_int ((nb_slabs mc - 1) * int MC_SLAB_BUFFER_SIZE))
          = (uint (slab_total mc) \<le> (nb_slabs mc - 1) * int MC_SLAB_BUFFER_SIZE)"
        using fits by (rule word_le_of_int_u64)
      then show ?thesis
        using True False fits by (simp add: mc_slab_start_policy_def Let_def)
    next
      case shrink: True
      have cd: "c_div (nb_slabs mc - 1) 2 = (nb_slabs mc - 1) div 2"
        using True by (simp add: c_div_nonneg)
      have k: "nat (nb_slabs_to_free mc) < length (slabs (mc\<lparr>strikes := 0\<rparr>))"
        using True nb by (simp add: nb_slabs_to_free_def)
      have "length (slabs mc) - nat (nb_slabs_to_free mc) = nat (nb_slabs mc - nb_slabs_to_free mc)"
        using True nb by (simp add: nb_slabs_to_free_def)
      moreover have "int (nat (nb_slabs_to_free mc)) = nb_slabs_to_free mc"
        by (simp add: nb_slabs_to_free_def)
      ultimately show ?thesis
        using True shrink free_tail_slabs_spec[OF k]
        by (simp add: mc_slab_start_policy_def Let_def cd nb_slabs_to_free_def[symmetric])
    qed
  qed
qed

lemma mc_slab_start_spec_shrink:
  assumes "ring_wf mc"
    and "strikes mc < ms \<Longrightarrow> (nb_slabs mc - 1) * int MC_SLAB_BUFFER_SIZE \<le> INT_MAX"
  shows "\<exists>mc1. mc_slab_start ms mc = Some mc1
      \<and> (if 2 \<le> nb_slabs mc \<and> ms \<le> strikes mc
          then strikes mc1 = 0 \<and> nb_slabs mc1 = nb_slabs mc - nb_slabs_to_free mc
          else nb_slabs mc1 = nb_slabs mc
             \<and> strikes mc1 =
                 (if 2 \<le> nb_slabs mc
                     \<and> uint (slab_total mc) \<le> (nb_slabs mc - 1) * int MC_SLAB_BUFFER_SIZE
                  then strikes mc + 1 else 0))
      \<and> 1 \<le> nb_slabs mc1
      \<and> map buf (slabs mc1) = take (nat (nb_slabs mc1)) (map buf (slabs mc))
      \<and> tl (slabs mc1) = tl (take (nat (nb_slabs mc1)) (slabs mc))
      \<and> ring_wf mc1 \<and> ring_fresh mc1 \<and> slab_total mc1 = 0"
proof -
  have nb: "nb_slabs mc = int (length (slabs mc))" "slabs mc \<noteq> []"
      "list_all slab_ok (slabs mc)"
    using assms(1) by (simp_all add: ring_wf_def)
  define p where "p = (if 2 \<le> nb_slabs mc \<and> ms \<le> strikes mc
           then mc\<lparr>strikes := 0,
                   slabs := take (nat (nb_slabs mc - nb_slabs_to_free mc)) (slabs mc),
                   nb_slabs := nb_slabs mc - nb_slabs_to_free mc\<rparr>
           else if 2 \<le> nb_slabs mc
                   \<and> uint (slab_total mc) \<le> (nb_slabs mc - 1) * int MC_SLAB_BUFFER_SIZE
           then mc\<lparr>strikes := strikes mc + 1\<rparr>
           else mc\<lparr>strikes := 0\<rparr>)"
  have pol: "mc_slab_start_policy ms mc = Some p"
    unfolding p_def using assms by (rule mc_slab_start_policy_spec)
  have l1: "Suc 0 \<le> length (slabs mc)"
    using nb(2) by (cases "slabs mc") auto
  have keep: "1 \<le> nb_slabs p" "nb_slabs p \<le> nb_slabs mc"
      "slabs p = take (nat (nb_slabs p)) (slabs mc)"
    using nb l1 by (auto simp: p_def nb_slabs_to_free_def)
  then have pne: "slabs p \<noteq> []" using nb by auto
  then obtain h rest where hr: "slabs p = h # rest" by (cases "slabs p") auto
  define mc1 where "mc1 = p\<lparr>slab_total := 0, slabs := h\<lparr>read := 0, size_s := 0\<rparr> # rest,
      curr_slab := Some 0\<rparr>"
  have st: "mc_slab_start ms mc = Some mc1"
    using pol hr by (simp add: mc_slab_start_def mc1_def)
  have "set (take (nat (nb_slabs p)) (slabs mc)) \<subseteq> set (slabs mc)"
    by (rule set_take_subset)
  then have "list_all slab_ok (take (nat (nb_slabs p)) (slabs mc))"
    using nb(3) by (auto simp: list_all_iff)
  then have okp: "list_all slab_ok (slabs p)"
    by (simp only: keep(3)[symmetric])
  then have ok1: "list_all slab_ok (slabs mc1)"
    using hr by (simp add: mc1_def slab_ok_def)
  have "length (slabs p) = length (take (nat (nb_slabs p)) (slabs mc))"
    by (simp only: keep(3)[symmetric])
  then have lp: "length (slabs p) = nat (nb_slabs p)"
    using keep(2) nb(1) by simp
  have len1: "int (length (slabs mc1)) = nb_slabs mc1"
    using lp keep(1) hr by (simp add: mc1_def)
  have wf: "ring_wf mc1"
    using ok1 len1 by (simp add: ring_wf_def mc1_def valid_ptr_def)
  have fr: "ring_fresh mc1" by (simp add: ring_fresh_def mc1_def)
  have bufs: "map buf (slabs mc1) = take (nat (nb_slabs mc1)) (map buf (slabs mc))"
  proof -
    have "map buf (slabs mc1) = map buf (slabs p)" using hr by (simp add: mc1_def)
    also have "\<dots> = map buf (take (nat (nb_slabs p)) (slabs mc))"
      by (simp only: keep(3)[symmetric])
    also have "\<dots> = take (nat (nb_slabs p)) (map buf (slabs mc))"
      by (simp add: take_map)
    finally show ?thesis by (simp add: mc1_def)
  qed
  have "tl (slabs p) = tl (take (nat (nb_slabs p)) (slabs mc))"
    by (simp only: keep(3)[symmetric])
  then have tls: "tl (slabs mc1) = tl (take (nat (nb_slabs mc1)) (slabs mc))"
    using hr by (simp add: mc1_def)
  have cases: "(if 2 \<le> nb_slabs mc \<and> ms \<le> strikes mc
          then strikes mc1 = 0 \<and> nb_slabs mc1 = nb_slabs mc - nb_slabs_to_free mc
          else nb_slabs mc1 = nb_slabs mc
             \<and> strikes mc1 =
                 (if 2 \<le> nb_slabs mc
                     \<and> uint (slab_total mc) \<le> (nb_slabs mc - 1) * int MC_SLAB_BUFFER_SIZE
                  then strikes mc + 1 else 0))"
    by (simp add: mc1_def p_def)
  show ?thesis
    using st cases keep(1) bufs tls wf fr by (intro exI[of _ mc1]) (simp add: mc1_def)
qed

lemma mc_slab_start_spec:
  assumes "ring_wf mc" "(nb_slabs mc - 1) * int MC_SLAB_BUFFER_SIZE \<le> INT_MAX"
  shows "\<exists>mc1. mc_slab_start ms mc = Some mc1
      \<and> (if 2 \<le> nb_slabs mc \<and> ms \<le> strikes mc
          then strikes mc1 = 0 \<and> nb_slabs mc1 = nb_slabs mc - nb_slabs_to_free mc
          else nb_slabs mc1 = nb_slabs mc
             \<and> strikes mc1 =
                 (if 2 \<le> nb_slabs mc
                     \<and> uint (slab_total mc) \<le> (nb_slabs mc - 1) * int MC_SLAB_BUFFER_SIZE
                  then strikes mc + 1 else 0))
      \<and> 1 \<le> nb_slabs mc1
      \<and> map buf (slabs mc1) = take (nat (nb_slabs mc1)) (map buf (slabs mc))
      \<and> tl (slabs mc1) = tl (take (nat (nb_slabs mc1)) (slabs mc))
      \<and> ring_wf mc1 \<and> ring_fresh mc1 \<and> slab_total mc1 = 0"
  using assms by (rule mc_slab_start_spec_shrink)

text \<open>
  A ring of the primary after small checkpoints: two empty slabs, the last checkpoint held
  seven bytes; \<open>max_strikes\<close> is 100. The ring at the start of the tick after the 99th
  strike, and at the start of the tick after the 100th.
\<close>

definition ring_99_strikes :: MCParams where
  "ring_99_strikes =
     \<lparr>slabs = [malloc_slab 0 0, malloc_slab 0 0], curr_slab = Some 0, slab_total = 7,
      nb_slabs = 2, strikes = 99\<rparr>"

definition ring_two_slabs :: MCParams where
  "ring_two_slabs =
     \<lparr>slabs = [malloc_slab 0 0, malloc_slab 0 0], curr_slab = Some 0, slab_total = 7,
      nb_slabs = 2, strikes = 100\<rparr>"

lemma ring_two_slabs_wf: "ring_wf ring_two_slabs"
  by (simp add: ring_wf_def ring_two_slabs_def malloc_slab_def slab_ok_def valid_ptr_def)

lemma ring_99_strikes_wf: "ring_wf ring_99_strikes"
  by (simp add: ring_wf_def ring_99_strikes_def malloc_slab_def slab_ok_def valid_ptr_def)

text \<open>
  C5 (amended). At the start of each tick the policy looks at the value \<open>strikes\<close> has at
  that moment, and takes one branch only. On a ring of at least two slabs: when strikes
  is already at least \<open>max_strikes\<close>, exactly max(1, (nb_slabs-1)/2) slabs are freed
  from the tail and strikes is reset to zero, whatever the previous \<open>slab_total\<close>, and
  strikes is not incremented; otherwise, when the previous \<open>slab_total\<close> is at most
  (nb_slabs-1) * MC_SLAB_BUFFER_SIZE, strikes is incremented and no slab is freed in this
  tick, also when the increment makes strikes reach \<open>max_strikes\<close>: the shrink comes at
  the start of the next tick; otherwise (the previous tick filled all slabs, or the ring
  has one slab) strikes is reset to zero. In every case \<open>nb_slabs\<close> stays at least 1, the
  slabs that survive are the first ones of the ring, the head among them, and the ring is
  reset: the cursor at the head, the head empty, \<open>slab_total\<close> zero. The product
  (nb_slabs-1) * MC_SLAB_BUFFER_SIZE is an \<open>int\<close> of C and is computed only when strikes
  is below \<open>max_strikes\<close>: there it has to fit an \<open>int\<close>; the shrink needs no such
  condition.
\<close>

theorem mc_slab_start_elastic_sizing:
  assumes "ring_wf mc"
    and "strikes mc < ms \<Longrightarrow> (nb_slabs mc - 1) * int MC_SLAB_BUFFER_SIZE \<le> INT_MAX"
  shows "\<exists>mc1. mc_slab_start ms mc = Some mc1
      \<and> (if 2 \<le> nb_slabs mc \<and> ms \<le> strikes mc
          then strikes mc1 = 0
             \<and> nb_slabs mc1 = nb_slabs mc - max 1 ((nb_slabs mc - 1) div 2)
          else nb_slabs mc1 = nb_slabs mc
             \<and> strikes mc1 =
                 (if 2 \<le> nb_slabs mc
                     \<and> uint (slab_total mc) \<le> (nb_slabs mc - 1) * int MC_SLAB_BUFFER_SIZE
                  then strikes mc + 1 else 0))
      \<and> 1 \<le> nb_slabs mc1
      \<and> map buf (slabs mc1) = take (nat (nb_slabs mc1)) (map buf (slabs mc))
      \<and> tl (slabs mc1) = tl (take (nat (nb_slabs mc1)) (slabs mc))
      \<and> ring_wf mc1 \<and> ring_fresh mc1 \<and> slab_total mc1 = 0"
  using mc_slab_start_spec_shrink[OF assms, of ms] unfolding nb_slabs_to_free_def by simp

text \<open>
  The two ticks of the ring of two slabs, with \<open>max_strikes\<close> = 100: the 100th strike,
  which frees nothing, and the shrink at the start of the tick after it.
\<close>

theorem mc_slab_start_elastic_sizing_witness:
  "ring_wf ring_99_strikes
   \<and> (nb_slabs ring_99_strikes - 1) * int MC_SLAB_BUFFER_SIZE \<le> INT_MAX
   \<and> (\<exists>mc1. mc_slab_start 100 ring_99_strikes = Some mc1
          \<and> strikes mc1 = 100 \<and> nb_slabs mc1 = 2 \<and> length (slabs mc1) = 2
          \<and> ring_fresh mc1 \<and> slab_total mc1 = 0)
   \<and> ring_wf ring_two_slabs
   \<and> (\<exists>mc1. mc_slab_start 100 ring_two_slabs = Some mc1
          \<and> strikes mc1 = 0 \<and> nb_slabs mc1 = 1 \<and> length (slabs mc1) = 1
          \<and> ring_fresh mc1 \<and> slab_total mc1 = 0)"
proof -
  have g1: "ring_wf ring_99_strikes" by (rule ring_99_strikes_wf)
  have g2: "(nb_slabs ring_99_strikes - 1) * int MC_SLAB_BUFFER_SIZE \<le> INT_MAX"
    by (simp add: ring_99_strikes_def MC_SLAB_BUFFER_SIZE_def INT_MAX_def)
  obtain mc0 where q: "mc_slab_start 100 ring_99_strikes = Some mc0"
      "strikes mc0 = 100" "nb_slabs mc0 = 2" "ring_wf mc0" "ring_fresh mc0" "slab_total mc0 = 0"
    using mc_slab_start_elastic_sizing[OF g1 g2, of 100]
    by (auto simp: ring_99_strikes_def MC_SLAB_BUFFER_SIZE_def)
  have l0: "length (slabs mc0) = 2" using q(3,4) by (simp add: ring_wf_def)
  have h1: "ring_wf ring_two_slabs" by (rule ring_two_slabs_wf)
  have h2: "strikes ring_two_slabs < 100
            \<Longrightarrow> (nb_slabs ring_two_slabs - 1) * int MC_SLAB_BUFFER_SIZE \<le> INT_MAX"
    by (simp add: ring_two_slabs_def)
  obtain mc1 where r: "mc_slab_start 100 ring_two_slabs = Some mc1"
      "strikes mc1 = 0" "nb_slabs mc1 = 1" "ring_wf mc1" "ring_fresh mc1" "slab_total mc1 = 0"
    using mc_slab_start_elastic_sizing[OF h1 h2, of 100]
    by (auto simp: ring_two_slabs_def)
  have l1: "length (slabs mc1) = 1" using r(3,4) by (simp add: ring_wf_def)
  show ?thesis using g1 g2 q l0 h1 r l1 by auto
qed

text \<open>
  The claim as stated fails at the 100th strike. The ring has two slabs, the previous
  \<open>slab_total\<close> is below one slab and strikes is 99: strikes is incremented and is now
  100, which is \<open>max_strikes\<close>. The claim has max(1, (2-1)/2) = 1 slab freed and strikes
  reset when strikes has reached \<open>max_strikes\<close>; the code leaves the two slabs and
  strikes = 100, since it has tested strikes against \<open>max_strikes\<close> before the
  increment, in the other branch.
\<close>

theorem mc_slab_start_counterexample:
  "2 \<le> nb_slabs ring_99_strikes
   \<and> uint (slab_total ring_99_strikes)
       \<le> (nb_slabs ring_99_strikes - 1) * int MC_SLAB_BUFFER_SIZE
   \<and> map_option strikes (mc_slab_start 100 ring_99_strikes)
       = Some (strikes ring_99_strikes + 1)
   \<and> map_option (\<lambda>mc1. 100 \<le> strikes mc1) (mc_slab_start 100 ring_99_strikes) = Some True
   \<and> map_option nb_slabs (mc_slab_start 100 ring_99_strikes) = Some 2
   \<and> map_option (\<lambda>mc1. length (slabs mc1)) (mc_slab_start 100 ring_99_strikes) = Some 2
   \<and> map_option strikes (mc_slab_start 100 ring_99_strikes) \<noteq> Some 0"
  by (simp add: ring_99_strikes_def mc_slab_start_def mc_slab_start_policy_def Let_def
      c_div_def malloc_slab_def MC_SLAB_BUFFER_SIZE_def INT_MAX_def)

subsection \<open>The total of the ring\<close>





subsection \<open>The capture of a checkpoint\<close>

text \<open>The byte sequences of calls of \<open>mc_put_buffer\<close>: each has a length an \<open>int\<close> holds.\<close>

definition puts_ok :: "u8 list list \<Rightarrow> bool" where
  "puts_ok ds = list_all (\<lambda>d. length d < 2 ^ 31) ds"

text \<open>The events of the netlink calls on the plug qdisc.\<close>

fun is_netlink :: "mc_event \<Rightarrow> bool" where
  "is_netlink (Rtnl_qdisc_plug_set_limit _) = True"
| "is_netlink Rtnl_qdisc_plug_buffer = True"
| "is_netlink Rtnl_qdisc_plug_release_one = True"
| "is_netlink Rtnl_qdisc_plug_release_indefinite = True"
| "is_netlink (Rtnl_qdisc_add _) = True"
| "is_netlink Rtnl_qdisc_delete = True"
| "is_netlink _ = False"

lemma mc_put_all_spec:
  "ring_wf mc \<Longrightarrow> curr_slab mc \<noteq> None \<Longrightarrow> puts_ok ds
   \<Longrightarrow> \<exists>mc1. mc_put_all mc ds = Some mc1 \<and> ring_wf mc1 \<and> curr_slab mc1 \<noteq> None"
proof (induction ds arbitrary: mc)
  case Nil
  then show ?case by simp
next
  case (Cons d ds)
  obtain slab where s: "curr_slab mc = Some slab" using Cons.prems(2) by auto
  have "length d < 2 ^ 31" using Cons.prems(3) by (simp add: puts_ok_def)
  then have ld: "length d < 2 ^ 64" by simp
  obtain mc1 c where p: "mc_put_buffer mc d = Some (mc1, int (length d))"
      "put_post mc slab (of_nat (length d)) d mc1 c" "ring_wf mc1"
    using mc_put_buffer_spec[OF Cons.prems(1) s ld] by blast
  have "curr_slab mc1 \<noteq> None" using p(2) by (simp add: put_post_def)
  moreover have "puts_ok ds" using Cons.prems(3) by (simp add: puts_ok_def)
  ultimately show ?case
    using Cons.IH[OF p(3)] p(1) by simp
qed

lemma mc_deliver_netlink: "list_all is_netlink (snd (mc_deliver b u a))"
  by (simp add: mc_deliver_def)

lemma mc_set_buffer_size_netlink:
  "list_all is_netlink (fst (snd (mc_set_buffer_size b sz l a)))"
  by (simp add: mc_set_buffer_size_def Let_def mc_deliver_netlink)

lemma mc_start_buffer_netlink:
  "list_all is_netlink (fst (snd (mc_start_buffer b l la p a)))"
proof -
  obtain r1 ev1 b1 where s: "mc_set_buffer_size (b\<lparr>buffer_size := new_buffer_size b\<rparr>)
      (new_buffer_size b) l la = (r1, ev1, b1)"
    by (cases "mc_set_buffer_size (b\<lparr>buffer_size := new_buffer_size b\<rparr>)
      (new_buffer_size b) l la") auto
  have "list_all is_netlink ev1"
    using mc_set_buffer_size_netlink[of "b\<lparr>buffer_size := new_buffer_size b\<rparr>"
        "new_buffer_size b" l la] s by simp
  then show ?thesis
    using s by (simp add: mc_start_buffer_def Let_def mc_deliver_netlink)
qed

lemma netlink_not_vm_start: "list_all is_netlink ev \<Longrightarrow> Vm_start \<notin> set ev"
  by (auto simp: list_all_iff)

text \<open>
  C10. \<open>capture_checkpoint\<close> in the state \<open>MIG_STATE_MC\<close>, when
  \<open>qemu_savevm_state_complete\<close> leaves an error in the staging file: the function returns
  that negative value, the state of the migration becomes \<open>MIG_STATE_ERROR\<close>, the guest
  has been stopped and \<open>vm_start\<close> is not called, and the trace begins with the taking of
  the mutex of the I/O thread and ends with its release.
\<close>

theorem capture_checkpoint_save_error:
  assumes "te_complete_err e < 0" and "state (mig w) = MIG_STATE_MC"
    and "ring_wf (ring w)" and "curr_slab (ring w) \<noteq> None"
    and "puts_ok (te_begin_puts e)" and "puts_ok (te_complete_puts e)"
  shows "\<exists>tr w1. capture_checkpoint e w = Some (te_complete_err e, tr, w1)
           \<and> state (mig w1) = MIG_STATE_ERROR
           \<and> Vm_stop_force_state \<in> set tr \<and> Vm_start \<notin> set tr
           \<and> hd tr = Mutex_lock_iothread \<and> last tr = Mutex_unlock_iothread"
proof -
  obtain r0 ev0 b1 where sb: "mc_start_buffer (buf_ctl w) (te_set_limit_err e)
      (te_set_limit_add_err e) (te_plug_buffer_err e) (te_plug_buffer_add_err e) = (r0, ev0, b1)"
    by (cases "mc_start_buffer (buf_ctl w) (te_set_limit_err e)
      (te_set_limit_add_err e) (te_plug_buffer_err e) (te_plug_buffer_add_err e)") auto
  have "list_all is_netlink ev0"
    using mc_start_buffer_netlink[of "buf_ctl w" "te_set_limit_err e" "te_set_limit_add_err e"
        "te_plug_buffer_err e" "te_plug_buffer_add_err e"] sb by simp
  then have nv: "Vm_start \<notin> set ev0" by (rule netlink_not_vm_start)
  obtain mc1 where p1: "mc_put_all (ring w) (te_begin_puts e) = Some mc1" "ring_wf mc1"
      "curr_slab mc1 \<noteq> None"
    using mc_put_all_spec[OF assms(3,4,5)] by blast
  obtain mc2 where p2: "mc_put_all mc1 (te_complete_puts e) = Some mc2"
    using mc_put_all_spec[OF p1(2,3) assms(6)] by blast
  show ?thesis
    using assms(1,2) sb nv p1(1) p2
    by (simp add: capture_checkpoint_def Let_def migrate_set_state_def)
qed

text \<open>
  An idle tick of the primary and the state it starts in: buffering is enabled, the
  hypervisor saves three bytes, every call succeeds and the secondary answers ACK.
\<close>

definition example_tick_env :: tick_env where
  "example_tick_env =
     \<lparr>te_state = None, te_clock_start = 0, te_set_limit_err = 0, te_set_limit_add_err = 0,
      te_plug_buffer_err = 0, te_plug_buffer_add_err = 0, te_begin_puts = [[1, 2]],
      te_begin_err = 0, te_complete_puts = [[3]], te_complete_err = 0, te_clock_stop = 5,
      te_fflush_puts = [], te_ftell = 3, te_commit_err = 0, te_send_rets = [3],
      te_file_err = 0, te_ack_got = 2, te_ack_err = 0, te_release_one_err = 0,
      te_release_add_err = 0\<rparr>"

definition example_world :: mc_world where
  "example_world =
     \<lparr>mig = \<lparr>state = MIG_STATE_MC, downtime = 0, bytes_xfer = 0\<rparr>,
      ring = qemu_fopen_mc 0 0,
      buf_ctl = \<lparr>buffering_enabled = True, buffer_size = 125000000,
                 new_buffer_size = 125000000\<rparr>,
      max_strikes = 100, freq_ms = 100\<rparr>"

lemma example_ring_wf: "ring_wf (qemu_fopen_mc 0 0)"
  by (simp add: ring_wf_def qemu_fopen_mc_def malloc_slab_def slab_ok_def valid_ptr_def)

text \<open>The error \<open>- EIO\<close> on a fresh ring, with three bytes of state written before.\<close>

theorem capture_checkpoint_save_error_witness:
  "te_complete_err (example_tick_env\<lparr>te_complete_err := - 5\<rparr>) < 0
   \<and> state (mig example_world) = MIG_STATE_MC
   \<and> (\<exists>tr w1. capture_checkpoint (example_tick_env\<lparr>te_complete_err := - 5\<rparr>) example_world
                  = Some (- 5, tr, w1)
          \<and> state (mig w1) = MIG_STATE_ERROR
          \<and> Vm_stop_force_state \<in> set tr \<and> Vm_start \<notin> set tr
          \<and> hd tr = Mutex_lock_iothread \<and> last tr = Mutex_unlock_iothread)"
proof -
  let ?e = "example_tick_env\<lparr>te_complete_err := - 5\<rparr>"
  have h1: "te_complete_err ?e < 0" by simp
  have h2: "state (mig example_world) = MIG_STATE_MC" by (simp add: example_world_def)
  have h3: "ring_wf (ring example_world)" by (simp add: example_world_def example_ring_wf)
  have h4: "curr_slab (ring example_world) \<noteq> None"
    by (simp add: example_world_def qemu_fopen_mc_def)
  have h5: "puts_ok (te_begin_puts ?e)" by (simp add: puts_ok_def example_tick_env_def)
  have h6: "puts_ok (te_complete_puts ?e)" by (simp add: puts_ok_def example_tick_env_def)
  show ?thesis
    using h1 h2 capture_checkpoint_save_error[OF h1 h2 h3 h4 h5 h6] by simp
qed

subsection \<open>The order of acknowledgement and release\<close>

text \<open>
  A monitor over the trace of the primary, with the checkpoints acknowledged so far: the
  word ACK read without a file error in the pass of checkpoint \<open>k\<close> acknowledges \<open>k\<close>,
  and a call of \<open>rtnl_qdisc_plug_release_one\<close> in the pass of checkpoint \<open>k\<close> is
  allowed only when \<open>k\<close> is acknowledged.
\<close>

fun released_after_ack :: "nat list \<Rightarrow> (nat \<times> mc_event) list \<Rightarrow> bool" where
  "released_after_ack acked [] = True"
| "released_after_ack acked ((k, Get_be32 got err) # tr) =
     released_after_ack
       (if err = 0 \<and> got = word_of_int MC_TRANSACTION_ACK then k # acked else acked) tr"
| "released_after_ack acked ((k, Rtnl_qdisc_plug_release_one) # tr) =
     (k \<in> set acked \<and> released_after_ack acked tr)"
| "released_after_ack acked (_ # tr) = released_after_ack acked tr"

fun is_quiet :: "mc_event \<Rightarrow> bool" where
  "is_quiet (Get_be32 _ _) = False"
| "is_quiet Rtnl_qdisc_plug_release_one = False"
| "is_quiet _ = True"

lemma released_after_ack_quiet:
  "list_all is_quiet tr \<Longrightarrow>
   released_after_ack acked (map (Pair k) tr @ rest) = released_after_ack acked rest"
proof (induction tr)
  case Nil
  then show ?case by simp
next
  case (Cons a tr)
  then show ?case by (cases a) simp_all
qed

lemma released_after_ack_append:
  "released_after_ack acked a \<Longrightarrow> (\<And>acked'. released_after_ack acked' b)
   \<Longrightarrow> released_after_ack acked (a @ b)"
proof (induction acked a rule: released_after_ack.induct)
qed simp_all

lemma mc_deliver_quiet: "list_all is_quiet (snd (mc_deliver b u a))"
  by (simp add: mc_deliver_def)

lemma mc_set_buffer_size_quiet:
  "list_all is_quiet (fst (snd (mc_set_buffer_size b sz l a)))"
  by (simp add: mc_set_buffer_size_def Let_def mc_deliver_quiet)

lemma mc_start_buffer_quiet:
  "list_all is_quiet (fst (snd (mc_start_buffer b l la p a)))"
proof -
  obtain r1 ev1 b1 where s: "mc_set_buffer_size (b\<lparr>buffer_size := new_buffer_size b\<rparr>)
      (new_buffer_size b) l la = (r1, ev1, b1)"
    by (cases "mc_set_buffer_size (b\<lparr>buffer_size := new_buffer_size b\<rparr>)
      (new_buffer_size b) l la") auto
  have "list_all is_quiet ev1"
    using mc_set_buffer_size_quiet[of "b\<lparr>buffer_size := new_buffer_size b\<rparr>"
        "new_buffer_size b" l la] s by simp
  then show ?thesis
    using s by (simp add: mc_start_buffer_def Let_def mc_deliver_quiet)
qed

lemma capture_checkpoint_quiet:
  assumes "capture_checkpoint e w = Some (r, tr, w1)"
  shows "list_all is_quiet tr"
proof -
  obtain r0 ev0 b1 where sb: "mc_start_buffer (buf_ctl w) (te_set_limit_err e)
      (te_set_limit_add_err e) (te_plug_buffer_err e) (te_plug_buffer_add_err e) = (r0, ev0, b1)"
    by (cases "mc_start_buffer (buf_ctl w) (te_set_limit_err e)
      (te_set_limit_add_err e) (te_plug_buffer_err e) (te_plug_buffer_add_err e)") auto
  have "list_all is_quiet ev0"
    using mc_start_buffer_quiet[of "buf_ctl w" "te_set_limit_err e" "te_set_limit_add_err e"
        "te_plug_buffer_err e" "te_plug_buffer_add_err e"] sb by simp
  then show ?thesis
    using assms sb
    by (auto simp: capture_checkpoint_def Let_def split: option.splits if_splits)
qed

lemma send_full_quiet: "list_all is_send_full ev \<Longrightarrow> list_all is_quiet ev"
proof (induction ev)
  case Nil
  then show ?case by simp
next
  case (Cons a ev)
  then show ?case by (cases a) auto
qed

lemma mc_recv_ack_ok:
  assumes "err \<le> 0" "\<not> fst (mc_recv request got err) < 0"
  shows "err = 0 \<and> got = request"
  using assms by (auto simp: mc_recv_def EINVAL_def split: if_splits)

lemma flush_after_ack:
  "released_after_ack (k # acked)
     (map (Pair k) (snd (mc_flush_oldest_buffer b r a) @ [Usleep u]))"
  by (simp add: mc_flush_oldest_buffer_def mc_deliver_def)

lemma mc_tick_released_after_ack:
  assumes "te_ack_err e \<le> 0"
  shows "released_after_ack acked (map (Pair k) (fst (mc_tick e w)))"
proof (cases "mc_slab_start (max_strikes w) (ring w)")
  case None
  then show ?thesis by (simp add: mc_tick_def)
next
  case (Some mc0)
  note start = Some
  show ?thesis
  proof (cases "capture_checkpoint e (w\<lparr>ring := mc0\<rparr>)")
    case None
    then show ?thesis using start by (simp add: mc_tick_def)
  next
    case (Some c)
    obtain cret tr_c w1 where c: "c = (cret, tr_c, w1)" by (cases c)
    note cap = Some[unfolded c]
    have qc: "list_all is_quiet tr_c"
      using capture_checkpoint_quiet cap by blast
    let ?cmd = "Put_be32 (word_of_int MC_TRANSACTION_COMMIT)"
    let ?sz = "Put_be32 (word_of_int (te_ftell e))"
    show ?thesis
    proof (cases "cret < 0")
      case True
      then show ?thesis
        using start cap released_after_ack_quiet[OF qc, of acked k "[]"]
        by (simp add: mc_tick_def)
    next
      case cok: False
      show ?thesis
      proof (cases "te_commit_err e < 0")
        case True
        have "list_all is_quiet (tr_c @ [?cmd])" using qc by simp
        then show ?thesis
          using start cap cok True
            released_after_ack_quiet[of "tr_c @ [?cmd]" acked k "[]"]
          by (simp add: mc_tick_def mc_send_def Let_def)
      next
        case sok: False
        show ?thesis
        proof (cases "send_slabs (slabs (ring w1)) 1 (te_send_rets e)")
          case None
          have "list_all is_quiet (tr_c @ [?cmd, ?sz])" using qc by simp
          then show ?thesis
            using start cap cok sok None
              released_after_ack_quiet[of "tr_c @ [?cmd, ?sz]" acked k "[]"]
            by (simp add: mc_tick_def mc_send_def Let_def)
        next
          case (Some p)
          obtain slabs1 ret rets1 tr_p where p: "p = (slabs1, ret, rets1, tr_p)" by (cases p)
          note snd = Some[unfolded p]
          have "list_all is_send_full tr_p" using send_slabs_events snd by blast
          then have "list_all is_quiet tr_p" by (rule send_full_quiet)
          then have q3: "list_all is_quiet (tr_c @ [?cmd, ?sz] @ tr_p)" using qc by simp
          let ?tr3 = "tr_c @ [?cmd, ?sz] @ tr_p"
          show ?thesis
          proof (cases "ret \<le> 0 \<or> te_file_err e \<noteq> 0")
            case True
            then show ?thesis
              using start cap cok sok snd released_after_ack_quiet[OF q3, of acked k "[]"]
              by (auto simp: mc_tick_def mc_send_def Let_def)
          next
            case tok: False
            let ?ack = "Get_be32 (te_ack_got e) (te_ack_err e)"
            let ?rr = "fst (mc_recv (word_of_int MC_TRANSACTION_ACK) (te_ack_got e) (te_ack_err e))"
            show ?thesis
            proof (cases "?rr < 0")
              case True
              have "fst (mc_tick e w) = ?tr3 @ [?ack]"
                using start cap cok sok snd tok True
                by (simp add: mc_tick_def mc_send_def mc_recv_def Let_def)
              then show ?thesis
                using released_after_ack_quiet[OF q3, of acked k "[(k, ?ack)]"]
                by simp
            next
              case False
              then have ack: "te_ack_err e = 0" "te_ack_got e = word_of_int MC_TRANSACTION_ACK"
                using mc_recv_ack_ok[OF assms] by auto
              let ?w3 = "w1\<lparr>mig := (mig w1)\<lparr>bytes_xfer := te_ftell e\<rparr>,
                  ring := (ring w1)\<lparr>curr_slab := Some 0, slabs := slabs1\<rparr>\<rparr>"
              let ?fl = "snd (mc_flush_oldest_buffer (buf_ctl w1)
                  (te_release_one_err e) (te_release_add_err e)) @ [Usleep (freq_ms w1 * 1000)]"
              have "fst (mc_tick e w) = ?tr3 @ [?ack] @ ?fl"
                using start cap cok sok snd tok False
                by (simp add: mc_tick_def mc_send_def mc_recv_def Let_def)
              then have "released_after_ack acked (map (Pair k) (fst (mc_tick e w)))
                  = released_after_ack acked ((k, ?ack) # map (Pair k) ?fl)"
                using released_after_ack_quiet[OF q3, of acked k "(k, ?ack) # map (Pair k) ?fl"]
                by simp
              also have "\<dots> = released_after_ack (k # acked) (map (Pair k) ?fl)"
                using ack by simp
              finally show ?thesis
                using flush_after_ack by simp
            qed
          qed
        qed
      qed
    qed
  qed
qed

lemma mc_loop_released_after_ack:
  "list_all (\<lambda>e. te_ack_err e \<le> 0) es \<Longrightarrow> released_after_ack acked (fst (mc_loop k w es))"
proof (induction es arbitrary: k w acked)
  case Nil
  then show ?case by simp
next
  case (Cons e es)
  define w0 where "w0 = (case te_state e of
                  None \<Rightarrow> w
                | Some st \<Rightarrow> w\<lparr>mig := (mig w)\<lparr>state := st\<rparr>\<rparr>)"
  obtain tr st w1 where t: "mc_tick e w0 = (tr, st, w1)" by (cases "mc_tick e w0") auto
  have ok: "te_ack_err e \<le> 0" "list_all (\<lambda>e. te_ack_err e \<le> 0) es"
    using Cons.prems by simp_all
  have tk: "released_after_ack acked (map (Pair k) tr)"
    using mc_tick_released_after_ack[OF ok(1), of acked k w0] t by simp
  show ?case
  proof (cases "state (mig w0) \<noteq> MIG_STATE_MC")
    case True
    then show ?thesis by (simp add: w0_def[symmetric])
  next
    case False
    show ?thesis
    proof (cases "st = Tick_continue")
      case True
      obtain tr2 st2 w2 where l: "mc_loop (Suc k) w1 es = (tr2, st2, w2)"
        by (cases "mc_loop (Suc k) w1 es") auto
      have "\<And>acked'. released_after_ack acked' tr2"
        using Cons.IH[OF ok(2), of _ "Suc k" w1] l by simp
      then have "released_after_ack acked (map (Pair k) tr @ tr2)"
        using tk by (rule released_after_ack_append[rotated])
      then show ?thesis
        using False True t l by (simp add: w0_def[symmetric])
    next
      case nc: False
      then show ?thesis
        using False t tk by (cases st) (simp_all add: w0_def[symmetric])
    qed
  qed
qed

lemma mc_thread_exit_quiet: "list_all is_quiet (fst (mc_thread_exit err staging td w))"
  by (simp add: mc_thread_exit_def mc_disable_buffering_def mc_suspend_buffering_def
      mc_deliver_def Let_def split: prod.splits)

lemma released_after_ack_quiet_only:
  "list_all is_quiet tr \<Longrightarrow> released_after_ack acked (map (Pair k) tr)"
  using released_after_ack_quiet[of tr acked k "[]"] by simp

lemma mc_thread_released_after_ack:
  assumes "list_all (\<lambda>e. te_ack_err e \<le> 0) es"
  shows "released_after_ack acked (fst (mc_thread se es td w))"
proof (cases "\<not> se_write_ok se \<or> \<not> se_read_ok se \<or> \<not> se_staging_ok se")
  case True
  then show ?thesis
    using released_after_ack_quiet_only[OF mc_thread_exit_quiet]
    by (simp add: mc_thread_def)
next
  case False
  let ?w0 = "w\<lparr>ring := qemu_fopen_mc (se_head_size se) (se_head_read se)\<rparr>"
  let ?ack = "Get_be32 (se_ack_got se) (se_ack_err se)"
  show ?thesis
  proof (cases "fst (mc_recv (word_of_int MC_TRANSACTION_ACK) (se_ack_got se) (se_ack_err se)) < 0")
    case True
    have "released_after_ack acked ((0, ?ack) # map (Pair 0) (fst (mc_thread_exit True True td ?w0)))"
      using released_after_ack_quiet_only[OF mc_thread_exit_quiet] by simp
    then show ?thesis
      using False True by (simp add: mc_thread_def mc_recv_def Let_def)
  next
    case rok: False
    obtain tr st w1 where l: "mc_loop 1 ?w0 es = (tr, st, w1)"
      by (cases "mc_loop 1 ?w0 es") auto
    have lp: "\<And>acked'. released_after_ack acked' tr"
      using mc_loop_released_after_ack[OF assms, of _ 1 ?w0] l by simp
    have ex: "\<And>acked'. released_after_ack acked'
        (tr @ map (Pair 0) (fst (mc_thread_exit (st = Tick_err) True td w1)))"
      using lp released_after_ack_quiet_only[OF mc_thread_exit_quiet]
      by (intro released_after_ack_append) auto
    show ?thesis
    proof (cases "st = Tick_stuck")
      case True
      then show ?thesis
        using False rok l lp by (simp add: mc_thread_def mc_recv_def Let_def)
    next
      case False
      then show ?thesis
        using \<open>\<not> (\<not> se_write_ok se \<or> \<not> se_read_ok se \<or> \<not> se_staging_ok se)\<close> rok l ex
        by (cases st) (simp_all add: mc_thread_def mc_recv_def Let_def)
    qed
  qed
qed

lemma released_after_ack_explicit:
  "released_after_ack acked tr \<Longrightarrow> tr = pre @ (k, Rtnl_qdisc_plug_release_one) # post
   \<Longrightarrow> k \<in> set acked \<or> (k, Get_be32 (word_of_int MC_TRANSACTION_ACK) 0) \<in> set pre"
proof (induction pre arbitrary: acked tr)
  case Nil
  then show ?case by simp
next
  case (Cons a pre)
  obtain j ev where a: "a = (j, ev)" by (cases a)
  have tr: "tr = (j, ev) # (pre @ (k, Rtnl_qdisc_plug_release_one) # post)"
    using Cons.prems(2) a by simp
  show ?case
  proof (cases ev)
    case (Get_be32 got err)
    then have "released_after_ack
        (if err = 0 \<and> got = word_of_int MC_TRANSACTION_ACK then j # acked else acked)
        (pre @ (k, Rtnl_qdisc_plug_release_one) # post)"
      using Cons.prems(1) tr by simp
    from Cons.IH[OF this refl] show ?thesis
      using a Get_be32 by (auto split: if_splits)
  next
    case Rtnl_qdisc_plug_release_one
    then have "released_after_ack acked (pre @ (k, Rtnl_qdisc_plug_release_one) # post)"
      using Cons.prems(1) tr by simp
    from Cons.IH[OF this refl] show ?thesis by auto
  qed (use Cons.prems(1) tr Cons.IH[OF _ refl, of acked] in auto)
qed

text \<open>
  C1. In the trace of \<open>mc_thread\<close>, whatever the environment answers, as long as the
  error of a file is never positive (\<open>qemu_file_get_error\<close> gives zero or a negative
  errno): every \<open>Rtnl_qdisc_plug_release_one\<close> of checkpoint \<open>k\<close> comes after the
  reading of the word \<open>MC_TRANSACTION_ACK\<close>, without error, in the same checkpoint
  \<open>k\<close>, and each such reading releases at most one barrier.
\<close>

theorem release_one_only_after_ack:
  assumes "list_all (\<lambda>e. te_ack_err e \<le> 0) es"
  shows "released_after_ack [] (fst (mc_thread se es td w))
       \<and> (\<forall>pre post k. fst (mc_thread se es td w) = pre @ (k, Rtnl_qdisc_plug_release_one) # post
            \<longrightarrow> (k, Get_be32 (word_of_int MC_TRANSACTION_ACK) 0) \<in> set pre)"
proof -
  have m: "released_after_ack [] (fst (mc_thread se es td w))"
    using assms by (rule mc_thread_released_after_ack)
  then show ?thesis
    using released_after_ack_explicit[OF m] by auto
qed

definition example_setup_env :: setup_env where
  "example_setup_env =
     \<lparr>se_write_ok = True, se_read_ok = True, se_staging_ok = True, se_head_size = 0,
      se_head_read = 0, se_ack_got = 2, se_ack_err = 0\<rparr>"

definition example_teardown_env :: teardown_env where
  "example_teardown_env = \<lparr>td_release_err = 0, td_add_err = 0\<rparr>"

lemma example_thread_trace:
  "fst (mc_thread example_setup_env [example_tick_env] example_teardown_env example_world)
   = [(0, Get_be32 2 0), (1, Mutex_lock_iothread), (1, Vm_stop_force_state),
      (1, Rtnl_qdisc_plug_buffer), (1, Rtnl_qdisc_add False),
      (1, Reset_buffer_staging), (1, Savevm_state_begin),
      (1, Savevm_state_complete), (1, Vm_start), (1, Fflush_staging),
      (1, Mutex_unlock_iothread), (1, Put_be32 0), (1, Put_be32 3),
      (1, Send_full [Some 1, Some 2, Some 3] 3), (1, Get_be32 2 0),
      (1, Rtnl_qdisc_plug_release_one), (1, Rtnl_qdisc_add False),
      (1, Usleep 100000)]"
  by (simp add: mc_thread_def example_setup_env_def example_tick_env_def
      example_teardown_env_def example_world_def mc_recv_def mc_send_def mc_tick_def
      mc_slab_start_def mc_slab_start_policy_def capture_checkpoint_def mc_start_buffer_def
      mc_deliver_def mc_flush_oldest_buffer_def mc_put_buffer_def mc_put_loop_unfold
      put_amt_def put_write_def qemu_fopen_mc_def malloc_slab_def MC_SLAB_BUFFER_SIZE_def
      send_slab.simps memcpy_from_def memcpy_to_def Let_def
      MC_TRANSACTION_ACK_def MC_TRANSACTION_CANCEL_def MC_TRANSACTION_COMMIT_def
      MC_TRANSACTION_NACK_def EINVAL_def upt_conv_Cons nth_Cons')

text \<open>One pass of the loop, three bytes of state, acknowledged and released.\<close>

theorem release_one_only_after_ack_witness:
  "list_all (\<lambda>e. te_ack_err e \<le> 0) [example_tick_env]
   \<and> released_after_ack []
        (fst (mc_thread example_setup_env [example_tick_env] example_teardown_env example_world))
   \<and> (1, Rtnl_qdisc_plug_release_one)
        \<in> set (fst (mc_thread example_setup_env [example_tick_env] example_teardown_env
                     example_world))"
proof -
  have h: "list_all (\<lambda>e. te_ack_err e \<le> 0) [example_tick_env]"
    by (simp add: example_tick_env_def)
  show ?thesis
    using h release_one_only_after_ack[OF h, of example_setup_env example_teardown_env
        example_world]
    by (simp add: example_thread_trace)
qed

subsection \<open>The loop of the secondary\<close>

fun is_recv :: "mc_event \<Rightarrow> bool" where
  "is_recv (Recv _) = True"
| "is_recv (Recv_failed _) = True"
| "is_recv _ = False"

lemma recv_slab_events:
  "recv_slab slab received tot recvs = Some (slab1, received1, rs1, ev, failed)
   \<Longrightarrow> list_all is_recv ev"
proof (induction recvs arbitrary: slab received tot ev)
  case Nil
  then show ?case
    by (subst (asm) recv_slab.simps) (auto split: if_splits)
next
  case (Cons a recvs)
  obtain got bs where a: "a = (got, bs)" by (cases a)
  from Cons.prems show ?case
    unfolding a
    by (subst (asm) recv_slab.simps)
       (auto split: if_splits option.splits dest!: Cons.IH)
qed

definition fill_start :: "MCParams \<Rightarrow> nat \<Rightarrow> u32 \<Rightarrow> int \<Rightarrow> MCParams" where
  "fill_start mc slab c r =
     mc\<lparr>slabs := (slabs mc)[slab := (slabs mc ! slab)
             \<lparr>size_s := ucast (min (c - word_of_int r) (of_nat MC_SLAB_BUFFER_SIZE))\<rparr>],
         slab_total := slab_total mc + ucast (min (c - word_of_int r) (of_nat MC_SLAB_BUFFER_SIZE))\<rparr>"

lemma recv_checkpoint_unfold:
  "recv_checkpoint mc slab c r recvs =
     (if \<not> (word_of_int r < c) then Some (mc, recvs, [], False)
      else if length (slabs mc) \<le> slab then None
      else
        (case recv_slab (slabs (fill_start mc slab c r) ! slab) r 0 recvs of
           None \<Rightarrow> None
         | Some (slab1, r1, rs1, ev1, failed) \<Rightarrow>
             if failed
             then Some ((fill_start mc slab c r)
                          \<lparr>slabs := (slabs (fill_start mc slab c r))[slab := slab1]\<rparr>,
                        rs1, ev1, True)
             else if word_of_int r1 \<noteq> c then
               (case mc_slab_next ((fill_start mc slab c r)
                          \<lparr>slabs := (slabs (fill_start mc slab c r))[slab := slab1]\<rparr>) slab of
                  None \<Rightarrow> None
                | Some (mc3, slab3) \<Rightarrow>
                    (case recv_checkpoint mc3 slab3 c r1 rs1 of
                       None \<Rightarrow> None
                     | Some (mc4, rs4, ev4, failed4) \<Rightarrow> Some (mc4, rs4, ev1 @ ev4, failed4)))
             else
               (case recv_checkpoint ((fill_start mc slab c r)
                          \<lparr>slabs := (slabs (fill_start mc slab c r))[slab := slab1]\<rparr>)
                       slab c r1 rs1 of
                  None \<Rightarrow> None
                | Some (mc4, rs4, ev4, failed4) \<Rightarrow> Some (mc4, rs4, ev1 @ ev4, failed4))))"
  apply (subst recv_checkpoint.simps)
  apply (unfold Let_def fill_start_def)
  apply (rule refl)
  done

lemma fill_start_size:
  assumes "slab < length (slabs mc)" "word_of_int r < c"
  shows "size_s (slabs (fill_start mc slab c r) ! slab) \<noteq> 0"
  using assms slab_fill_size_nonzero[of "word_of_int r" c]
  by (simp add: fill_start_def)

lemma recv_checkpoint_events:
  "recv_checkpoint mc slab c r recvs = Some (mc1, rs, ev, failed) \<Longrightarrow> list_all is_recv ev"
proof (induction "length recvs" arbitrary: mc slab r recvs mc1 rs ev failed rule: less_induct)
  case less
  show ?case
  proof (cases "word_of_int r < c \<and> slab < length (slabs mc)")
    case False
    then show ?thesis
      using less.prems by (subst (asm) recv_checkpoint_unfold) (auto split: if_splits)
  next
    case True
    let ?m = "fill_start mc slab c r"
    obtain slab1 r1 rs1 ev1 failed1 where
      s: "recv_slab (slabs ?m ! slab) r 0 recvs = Some (slab1, r1, rs1, ev1, failed1)"
      using less.prems True
      by (subst (asm) recv_checkpoint_unfold) (auto split: option.splits)
    have e1: "list_all is_recv ev1" using s by (rule recv_slab_events)
    have sh: "length rs1 < length recvs"
      using s fill_start_size[of slab mc r c] True by (intro recv_slab_consumes) auto
    let ?m2 = "?m\<lparr>slabs := (slabs ?m)[slab := slab1]\<rparr>"
    show ?thesis
    proof (cases failed1)
      case True
      then show ?thesis
        using less.prems \<open>word_of_int r < c \<and> slab < length (slabs mc)\<close> s e1
        by (subst (asm) recv_checkpoint_unfold) auto
    next
      case nf: False
      show ?thesis
      proof (cases "word_of_int r1 \<noteq> c")
        case True
        then obtain mc3 slab3 mc4 rs4 ev4 failed4 where
          n: "mc_slab_next ?m2 slab = Some (mc3, slab3)"
          and rc: "recv_checkpoint mc3 slab3 c r1 rs1 = Some (mc4, rs4, ev4, failed4)"
          and ev: "ev = ev1 @ ev4"
          using less.prems \<open>word_of_int r < c \<and> slab < length (slabs mc)\<close> s nf
          by (subst (asm) recv_checkpoint_unfold) (auto split: option.splits)
        have "list_all is_recv ev4" using less.hyps[OF sh rc] .
        then show ?thesis using e1 ev by simp
      next
        case False
        then obtain mc4 rs4 ev4 failed4 where
          rc: "recv_checkpoint ?m2 slab c r1 rs1 = Some (mc4, rs4, ev4, failed4)"
          and ev: "ev = ev1 @ ev4"
          using less.prems \<open>word_of_int r < c \<and> slab < length (slabs mc)\<close> s nf
          by (subst (asm) recv_checkpoint_unfold) (auto split: option.splits)
        have "list_all is_recv ev4" using less.hyps[OF sh rc] .
        then show ?thesis using e1 ev by simp
      qed
    qed
  qed
qed

lemma recv_not_loadvm: "list_all is_recv ev \<Longrightarrow> Loadvm_state r \<notin> set ev"
  by (auto simp: list_all_iff)

lemma mc_incoming_tick_zero_size:
  assumes "mc_slab_start ms mc = Some mc0" "ie_size e = 0"
  shows "fst (snd (mc_incoming_tick ms e mc)) = In_rollback
       \<and> set (fst (mc_incoming_tick ms e mc))
           \<subseteq> {Get_be32 (ie_commit_got e) (ie_commit_err e), Get_be32_size 0}"
  using assms by (simp add: mc_incoming_tick_def mc_recv_def Let_def)

lemma mc_incoming_tick_exit:
  "(Loadvm_state r \<in> set (fst (mc_incoming_tick ms e mc)) \<and> r < 0
      \<longrightarrow> fst (snd (mc_incoming_tick ms e mc)) = In_exit 1)
   \<and> (fst (snd (mc_incoming_tick ms e mc)) = In_exit n
      \<longrightarrow> n = 1 \<and> ie_load_ret e < 0
          \<and> last (fst (mc_incoming_tick ms e mc)) = Loadvm_state (ie_load_ret e))"
proof (cases "mc_slab_start ms mc")
  case None
  then show ?thesis by (simp add: mc_incoming_tick_def)
next
  case (Some mc0)
  note start = Some
  let ?rr = "fst (mc_recv (word_of_int MC_TRANSACTION_COMMIT) (ie_commit_got e) (ie_commit_err e))"
  show ?thesis
  proof (cases "?rr < 0 \<or> ie_size e = 0")
    case True
    then show ?thesis
      using start by (auto simp: mc_incoming_tick_def mc_recv_def Let_def)
  next
    case ok: False
    show ?thesis
    proof (cases "recv_checkpoint mc0 0 (ie_size e) 0 (ie_recvs e)")
      case None
      then show ?thesis
        using start ok by (auto simp: mc_incoming_tick_def mc_recv_def Let_def)
    next
      case (Some p)
      obtain mc1 rs1 tr_p failed where p: "p = (mc1, rs1, tr_p, failed)" by (cases p)
      note rc = Some[unfolded p]
      have "list_all is_recv tr_p" using rc by (rule recv_checkpoint_events)
      then have nl: "\<And>r. Loadvm_state r \<notin> set tr_p" by (rule recv_not_loadvm)
      show ?thesis
      proof (cases "failed \<or> ie_ack_err e < 0")
        case True
        then show ?thesis
          using start ok rc nl
          by (auto simp: mc_incoming_tick_def mc_recv_def mc_send_def Let_def)
      next
        case aok: False
        show ?thesis
        proof (cases "mc_get_all (mc1\<lparr>curr_slab := Some 0\<rparr>) (ie_load_gets e)")
          case None
          then show ?thesis
            using start ok rc nl aok
            by (auto simp: mc_incoming_tick_def mc_recv_def mc_send_def Let_def)
        next
          case (Some mc3)
          then show ?thesis
            using start ok rc nl aok
            by (auto simp: mc_incoming_tick_def mc_recv_def mc_send_def Let_def)
        qed
      qed
    qed
  qed
qed

lemma mc_incoming_loop_stops:
  assumes "fst (snd (mc_incoming_tick ms e mc)) \<noteq> In_continue"
  shows "fst (snd (mc_incoming_loop k ms mc (e # es))) = fst (snd (mc_incoming_tick ms e mc))"
proof -
  obtain tr st mc1 where t: "mc_incoming_tick ms e mc = (tr, st, mc1)"
    by (cases "mc_incoming_tick ms e mc") auto
  then show ?thesis using assms by (cases st) simp_all
qed

text \<open>
  C4. One pass of the loop of the secondary, and the loop from that pass on. A size of zero
  ends the function by \<open>rollback\<close>, after the reading of the command and of the size and
  nothing else: no byte is received, no \<open>MC_TRANSACTION_ACK\<close> sent, no state loaded. A
  negative result of \<open>qemu_loadvm_state\<close> ends the process by \<open>exit(1)\<close>, and
  the process is ended in no other way, with no other status.
\<close>

theorem incoming_zero_size_and_load_failure:
  assumes "ring_wf mc" and "(nb_slabs mc - 1) * int MC_SLAB_BUFFER_SIZE \<le> INT_MAX"
  shows "(ie_size e = 0
          \<longrightarrow> fst (snd (mc_incoming_tick ms e mc)) = In_rollback
            \<and> fst (snd (mc_incoming_loop k ms mc (e # es))) = In_rollback
            \<and> set (fst (mc_incoming_tick ms e mc))
                \<subseteq> {Get_be32 (ie_commit_got e) (ie_commit_err e), Get_be32_size 0})
       \<and> (Loadvm_state r \<in> set (fst (mc_incoming_tick ms e mc)) \<and> r < 0
          \<longrightarrow> fst (snd (mc_incoming_tick ms e mc)) = In_exit 1
            \<and> fst (snd (mc_incoming_loop k ms mc (e # es))) = In_exit 1)
       \<and> (fst (snd (mc_incoming_tick ms e mc)) = In_exit n
          \<longrightarrow> n = 1 \<and> ie_load_ret e < 0
            \<and> last (fst (mc_incoming_tick ms e mc)) = Loadvm_state (ie_load_ret e))"
proof -
  obtain mc0 where s: "mc_slab_start ms mc = Some mc0"
    using mc_slab_start_spec[OF assms, of ms] by blast
  have z: "ie_size e = 0
          \<longrightarrow> fst (snd (mc_incoming_tick ms e mc)) = In_rollback
            \<and> fst (snd (mc_incoming_loop k ms mc (e # es))) = In_rollback
            \<and> set (fst (mc_incoming_tick ms e mc))
                \<subseteq> {Get_be32 (ie_commit_got e) (ie_commit_err e), Get_be32_size 0}"
  proof
    assume "ie_size e = 0"
    from mc_incoming_tick_zero_size[OF s this]
    show "fst (snd (mc_incoming_tick ms e mc)) = In_rollback
            \<and> fst (snd (mc_incoming_loop k ms mc (e # es))) = In_rollback
            \<and> set (fst (mc_incoming_tick ms e mc))
                \<subseteq> {Get_be32 (ie_commit_got e) (ie_commit_err e), Get_be32_size 0}"
      using mc_incoming_loop_stops[of ms e mc k es] by simp
  qed
  have x: "Loadvm_state r \<in> set (fst (mc_incoming_tick ms e mc)) \<and> r < 0
          \<longrightarrow> fst (snd (mc_incoming_tick ms e mc)) = In_exit 1
            \<and> fst (snd (mc_incoming_loop k ms mc (e # es))) = In_exit 1"
    using mc_incoming_tick_exit[of r ms e mc n] mc_incoming_loop_stops[of ms e mc k es]
    by simp
  show ?thesis
    using z x mc_incoming_tick_exit[of r ms e mc n] by blast
qed

definition example_incoming_env :: incoming_env where
  "example_incoming_env =
     \<lparr>ie_commit_got = 0, ie_commit_err = 0, ie_size = 3, ie_recvs = [(2, [1, 2]), (1, [3])],
      ie_ack_err = 0, ie_load_gets = [3], ie_load_ret = - 1\<rparr>"

lemma example_incoming_tick:
  "fst (mc_incoming_tick 100 example_incoming_env (qemu_fopen_mc 0 0))
     = [Get_be32 0 0, Get_be32_size 3, Recv [1, 2], Recv [3], Put_be32 2, Loadvm_state (- 1)]
   \<and> fst (mc_incoming_tick 100 (example_incoming_env\<lparr>ie_size := 0\<rparr>) (qemu_fopen_mc 0 0))
     = [Get_be32 0 0, Get_be32_size 0]"
  by (simp add: mc_incoming_tick_def example_incoming_env_def mc_recv_def mc_send_def
      mc_slab_start_def mc_slab_start_policy_def qemu_fopen_mc_def malloc_slab_def
      recv_checkpoint_unfold fill_start_def INT_MAX_def recv_slab.simps mc_get_buffer_def mc_get_loop_unfold
      get_amt_def get_read_def MC_SLAB_BUFFER_SIZE_def memcpy_from_def memcpy_to_def Let_def
      MC_TRANSACTION_ACK_def MC_TRANSACTION_CANCEL_def MC_TRANSACTION_COMMIT_def
      MC_TRANSACTION_NACK_def EINVAL_def upt_conv_Cons nth_Cons')

text \<open>
  A checkpoint of three bytes received in two parts whose loading fails, and the same
  with the size zero.
\<close>

theorem incoming_zero_size_and_load_failure_witness:
  "ring_wf (qemu_fopen_mc 0 0)
   \<and> Loadvm_state (- 1)
        \<in> set (fst (mc_incoming_tick 100 example_incoming_env (qemu_fopen_mc 0 0)))
   \<and> fst (snd (mc_incoming_tick 100 example_incoming_env (qemu_fopen_mc 0 0))) = In_exit 1
   \<and> fst (snd (mc_incoming_loop 1 100 (qemu_fopen_mc 0 0) [example_incoming_env]))
       = In_exit 1
   \<and> ie_size (example_incoming_env\<lparr>ie_size := 0\<rparr>) = 0
   \<and> fst (snd (mc_incoming_loop 1 100 (qemu_fopen_mc 0 0)
                  [example_incoming_env\<lparr>ie_size := 0\<rparr>])) = In_rollback"
proof -
  have wf: "ring_wf (qemu_fopen_mc 0 0)"
    by (simp add: ring_wf_def valid_ptr_def qemu_fopen_mc_def malloc_slab_def slab_ok_def
        MC_SLAB_BUFFER_SIZE_def)
  have fits: "(nb_slabs (qemu_fopen_mc 0 0) - 1) * int MC_SLAB_BUFFER_SIZE \<le> INT_MAX"
    by (simp add: qemu_fopen_mc_def INT_MAX_def)
  show ?thesis
    using wf example_incoming_tick
      incoming_zero_size_and_load_failure[OF wf fits,
        where e = example_incoming_env and r = "- 1" and ms = 100 and n = 1 and es = "[]"
          and k = 1]
      incoming_zero_size_and_load_failure[OF wf fits,
        where e = "example_incoming_env\<lparr>ie_size := 0\<rparr>" and r = "- 1" and ms = 100
          and n = 1 and es = "[]" and k = 1]
    by simp
qed

section \<open>The RDMA transport\<close>

subsection \<open>Constants and work request IDs\<close>

definition ENOMEM :: int where
  "ENOMEM = 12"

text \<open>\<^verbatim>\<open>#define RDMA_REG_CHUNK_SHIFT 20 /* 1 MB */\<close>\<close>

definition RDMA_REG_CHUNK_SHIFT :: nat where
  "RDMA_REG_CHUNK_SHIFT = 20"

text \<open>\<^verbatim>\<open>#define RDMA_MERGE_MAX (2 * 1024 * 1024)\<close>\<close>

definition RDMA_MERGE_MAX :: u64 where
  "RDMA_MERGE_MAX = 2 * 1024 * 1024"

text \<open>\<^verbatim>\<open>#define RDMA_CONTROL_MAX_BUFFER (512 * 1024)\<close>\<close>

definition RDMA_CONTROL_MAX_BUFFER :: nat where
  "RDMA_CONTROL_MAX_BUFFER = 512 * 1024"

text \<open>
  A work request ID has 64 bits: bits 0-15 the type, bits 16-29 the index of the RAM block,
  bits 30-63 the number of the chunk.
\<close>

definition RDMA_WRID_TYPE_SHIFT :: nat where
  "RDMA_WRID_TYPE_SHIFT = 0"

definition RDMA_WRID_BLOCK_SHIFT :: nat where
  "RDMA_WRID_BLOCK_SHIFT = 16"

definition RDMA_WRID_CHUNK_SHIFT :: nat where
  "RDMA_WRID_CHUNK_SHIFT = 30"

definition RDMA_WRID_TYPE_MASK :: u64 where
  "RDMA_WRID_TYPE_MASK = push_bit RDMA_WRID_BLOCK_SHIFT 1 - 1"

definition RDMA_WRID_BLOCK_MASK :: u64 where
  "RDMA_WRID_BLOCK_MASK = NOT RDMA_WRID_TYPE_MASK AND (push_bit RDMA_WRID_CHUNK_SHIFT 1 - 1)"

definition RDMA_WRID_CHUNK_MASK :: u64 where
  "RDMA_WRID_CHUNK_MASK = NOT RDMA_WRID_BLOCK_MASK AND NOT RDMA_WRID_TYPE_MASK"

text \<open>The types of work requests, an \<^verbatim>\<open>enum\<close> of \<^verbatim>\<open>int\<close>.\<close>

definition RDMA_WRID_NONE :: int where
  "RDMA_WRID_NONE = 0"

definition RDMA_WRID_RDMA_WRITE_REMOTE :: int where
  "RDMA_WRID_RDMA_WRITE_REMOTE = 1"

definition RDMA_WRID_RDMA_WRITE_LOCAL :: int where
  "RDMA_WRID_RDMA_WRITE_LOCAL = 2"

definition RDMA_WRID_RDMA_KEEPALIVE :: int where
  "RDMA_WRID_RDMA_KEEPALIVE = 3"

definition RDMA_WRID_SEND_CONTROL :: int where
  "RDMA_WRID_SEND_CONTROL = 2000"

definition RDMA_WRID_RECV_CONTROL :: int where
  "RDMA_WRID_RECV_CONTROL = 4000"

text \<open>The work requests of the control channel.\<close>

definition RDMA_WRID_READY :: int where
  "RDMA_WRID_READY = 0"

definition RDMA_WRID_DATA :: int where
  "RDMA_WRID_DATA = RDMA_WRID_READY + 1"

definition RDMA_WRID_CONTROL :: int where
  "RDMA_WRID_CONTROL = RDMA_WRID_DATA + 1"

text \<open>The types of control messages, compared with the \<^verbatim>\<open>uint32_t type\<close> of a header.\<close>

definition RDMA_CONTROL_NONE :: u32 where
  "RDMA_CONTROL_NONE = 0"

definition RDMA_CONTROL_ERROR :: u32 where
  "RDMA_CONTROL_ERROR = 1"

definition RDMA_CONTROL_READY :: u32 where
  "RDMA_CONTROL_READY = 2"

definition RDMA_CONTROL_COMPRESS :: u32 where
  "RDMA_CONTROL_COMPRESS = 6"

definition RDMA_CONTROL_REGISTER_REQUEST :: u32 where
  "RDMA_CONTROL_REGISTER_REQUEST = 7"

definition RDMA_CONTROL_REGISTER_RESULT :: u32 where
  "RDMA_CONTROL_REGISTER_RESULT = 8"

text \<open>
  \<^verbatim>\<open>sizeof(RDMAControlHeader)\<close>, \<^verbatim>\<open>sizeof(RDMARegister)\<close> and \<^verbatim>\<open>sizeof(RDMACompress)\<close>
  of the packed structures.
\<close>

definition sizeof_RDMAControlHeader :: nat where
  "sizeof_RDMAControlHeader = 16"

definition sizeof_RDMARegister :: u32 where
  "sizeof_RDMARegister = 24"

definition sizeof_RDMACompress :: u32 where
  "sizeof_RDMACompress = 24"

text \<open>
  \<^verbatim>\<open>
  static uint64_t qemu_rdma_make_wrid(uint64_t wr_id, uint64_t index, uint64_t chunk)
  {
      uint64_t result = wr_id & RDMA_WRID_TYPE_MASK;
      result |= (index << RDMA_WRID_BLOCK_SHIFT);
      result |= (chunk << RDMA_WRID_CHUNK_SHIFT);
      return result;
  }
  \<close>
\<close>

definition qemu_rdma_make_wrid :: "u64 \<Rightarrow> u64 \<Rightarrow> u64 \<Rightarrow> u64" where
  "qemu_rdma_make_wrid wr_id idx chunk =
     (wr_id AND RDMA_WRID_TYPE_MASK)
       OR push_bit RDMA_WRID_BLOCK_SHIFT idx
       OR push_bit RDMA_WRID_CHUNK_SHIFT chunk"

subsection \<open>The registry of blocks\<close>

text \<open>
  \<^verbatim>\<open>RDMALocalBlock\<close>. Addresses are 64-bit words. A memory region (\<^verbatim>\<open>struct ibv_mr *\<close>)
  is an object of the verbs library: the model keeps whether the pointer is set. The arrays
  \<^verbatim>\<open>pmr\<close>, \<^verbatim>\<open>remote_keys\<close> and the two bitmaps have \<^verbatim>\<open>nb_chunks\<close> elements, a bitmap
  being the list of its bits.
\<close>

record RDMALocalBlock =
  local_host_addr :: u64
  remote_host_addr :: u64
  offset :: u64
  length_b :: u64
  pmr :: "bool list option"
  mr :: bool
  pmr_src :: "bool list option"
  mr_src :: bool
  pmr_dest :: "bool list option"
  mr_dest :: bool
  remote_keys :: "u32 list"
  remote_rkey :: u32
  index :: int
  is_ram_block :: bool
  nb_chunks :: int
  transit_bitmap :: "bool list"
  unregister_bitmap :: "bool list"

text \<open>\<^verbatim>\<open>RDMALocalBlocks\<close>: the array \<^verbatim>\<open>block\<close> is the list of its elements.\<close>

record RDMALocalBlocks =
  nb_blocks :: int
  init :: bool
  block :: "RDMALocalBlock list"

text \<open>
  \<^verbatim>\<open>RDMACurrentChunk\<close>. The pointer \<^verbatim>\<open>block\<close> points into the array of blocks: it is the
  index of the element, \<open>None\<close> for \<^verbatim>\<open>NULL\<close>.
\<close>

record RDMACurrentChunk =
  current_addr :: u64
  current_length :: u64
  current_block_idx :: int
  current_chunk :: int
  block_offset :: u64
  cc_offset :: u64
  chunk_idx :: u64
  chunk_start :: u64
  chunk_end :: u64
  cc_block :: "nat option"
  addr :: u64
  chunks :: u64

text \<open>\<^verbatim>\<open>RDMALocalContext\<close>: the counters; the handles of the verbs library are left out.\<close>

record RDMALocalContext =
  lc_nb_sent :: int
  max_nb_sent :: int

text \<open>
  \<^verbatim>\<open>RDMAContext\<close>: the fields the block registry and the write engine use. The hash table
  \<^verbatim>\<open>blockmap\<close> maps the offset of a block to the element of the array, \<open>None\<close> before
  \<^verbatim>\<open>g_hash_table_new\<close>.
\<close>

record RDMAContext =
  control_ready_expected :: int
  nb_sent :: int
  chunk_remote :: RDMACurrentChunk
  chunk_local_src :: RDMACurrentChunk
  chunk_local_dest :: RDMACurrentChunk
  pin_all :: bool
  local_ram_blocks :: RDMALocalBlocks
  total_registrations :: int
  total_writes :: int
  blockmap :: "(u64 \<rightharpoonup> nat) option"
  lc_src :: RDMALocalContext
  lc_dest :: RDMALocalContext
  lc_remote :: RDMALocalContext
  source :: bool

text \<open>
  \<^verbatim>\<open>
  static inline uint64_t ram_chunk_index(const uint8_t *start, const uint8_t *host)
  {
      return ((uintptr_t) host - (uintptr_t) start) >> RDMA_REG_CHUNK_SHIFT;
  }
  \<close>
\<close>

definition ram_chunk_index :: "u64 \<Rightarrow> u64 \<Rightarrow> u64" where
  "ram_chunk_index start host = drop_bit RDMA_REG_CHUNK_SHIFT (host - start)"

definition ram_chunk_start :: "RDMALocalBlock \<Rightarrow> u64 \<Rightarrow> u64" where
  "ram_chunk_start rdma_ram_block i =
     local_host_addr rdma_ram_block + push_bit RDMA_REG_CHUNK_SHIFT i"

text \<open>
  \<^verbatim>\<open>
  uint8_t *result = ram_chunk_start(rdma_ram_block, i) + (1UL << RDMA_REG_CHUNK_SHIFT);
  if (result > (rdma_ram_block->local_host_addr + rdma_ram_block->length)) {
      result = rdma_ram_block->local_host_addr + rdma_ram_block->length;
  }
  return result;
  \<close>
\<close>

definition ram_chunk_end :: "RDMALocalBlock \<Rightarrow> u64 \<Rightarrow> u64" where
  "ram_chunk_end rdma_ram_block i =
     (let result = ram_chunk_start rdma_ram_block i + push_bit RDMA_REG_CHUNK_SHIFT 1
      in if result > local_host_addr rdma_ram_block + length_b rdma_ram_block
         then local_host_addr rdma_ram_block + length_b rdma_ram_block
         else result)"

text \<open>
  \<^verbatim>\<open>__qemu_rdma_add_block\<close>. The function is undefined (\<open>None\<close>) when the assertion
  \<^verbatim>\<open>assert(block == NULL)\<close> fails, when there is no hash table, and when the number of
  chunks, a \<^verbatim>\<open>uint64_t\<close> stored into the \<^verbatim>\<open>int nb_chunks\<close>, is not positive there.
  \<^verbatim>\<open>
  local->block = g_malloc0(sizeof(RDMALocalBlock) * (local->nb_blocks + 1));
  if (local->nb_blocks) {
      for (x = 0; x < local->nb_blocks; x++) {
          g_hash_table_remove(rdma->blockmap, (void *)old[x].offset);
          g_hash_table_insert(rdma->blockmap, (void *)old[x].offset, &local->block[x]);
      }
      memcpy(local->block, old, sizeof(RDMALocalBlock) * local->nb_blocks);
      g_free(old);
  }
  block = &local->block[local->nb_blocks];
  block->local_host_addr = host_addr;
  block->offset = block_offset;
  block->length = length;
  block->index = local->nb_blocks;
  block->nb_chunks = ram_chunk_index(host_addr, host_addr + length) + 1UL;
  block->transit_bitmap = bitmap_new(block->nb_chunks);
  bitmap_clear(block->transit_bitmap, 0, block->nb_chunks);
  block->unregister_bitmap = bitmap_new(block->nb_chunks);
  bitmap_clear(block->unregister_bitmap, 0, block->nb_chunks);
  block->remote_keys = g_malloc0(block->nb_chunks * sizeof(uint32_t));
  block->is_ram_block = local->init ? false : true;
  g_hash_table_insert(rdma->blockmap, (void *) block_offset, block);
  local->nb_blocks++;
  return 0;
  \<close>
\<close>

definition reinsert_blocks :: "RDMALocalBlock list \<Rightarrow> (u64 \<rightharpoonup> nat) \<Rightarrow> (u64 \<rightharpoonup> nat)" where
  "reinsert_blocks old m =
     foldl (\<lambda>m x. (m(offset (old ! x) := None))(offset (old ! x) \<mapsto> x)) m [0..<length old]"

definition uu_qemu_rdma_add_block ::
  "RDMAContext \<Rightarrow> u64 \<Rightarrow> u64 \<Rightarrow> u64 \<Rightarrow> (int \<times> RDMAContext) option" where
  "uu_qemu_rdma_add_block rdma host_addr block_off len =
     (case blockmap rdma of
        None \<Rightarrow> None
      | Some bm \<Rightarrow>
          (let local = local_ram_blocks rdma;
               old = block local;
               chunks_nb = sint (ucast (ram_chunk_index host_addr (host_addr + len) + 1) :: 32 word)
           in if bm block_off \<noteq> None \<or> int (length old) \<noteq> nb_blocks local
                 \<or> chunks_nb \<le> 0 \<or> INT_MAX \<le> nb_blocks local
              then None
              else
                (let blk = \<lparr>local_host_addr = host_addr, remote_host_addr = 0,
                            offset = block_off, length_b = len,
                            pmr = None, mr = False, pmr_src = None, mr_src = False,
                            pmr_dest = None, mr_dest = False,
                            remote_keys = replicate (nat chunks_nb) 0, remote_rkey = 0,
                            index = nb_blocks local,
                            is_ram_block = (if init local then False else True),
                            nb_chunks = chunks_nb,
                            transit_bitmap = replicate (nat chunks_nb) False,
                            unregister_bitmap = replicate (nat chunks_nb) False\<rparr>
                 in Some (0, rdma\<lparr>local_ram_blocks :=
                                    local\<lparr>block := old @ [blk],
                                          nb_blocks := nb_blocks local + 1\<rparr>,
                                  blockmap :=
                                    Some ((reinsert_blocks old bm)
                                            (block_off \<mapsto> length old))\<rparr>))))"

text \<open>
  \<^verbatim>\<open>qemu_rdma_add_block\<close>, the operation of the file a caller registers a private area
  with: \<^verbatim>\<open>return __qemu_rdma_add_block(rfile->rdma, host_addr, block_offset, length);\<close>
\<close>

definition qemu_rdma_add_block ::
  "RDMAContext \<Rightarrow> u64 \<Rightarrow> u64 \<Rightarrow> u64 \<Rightarrow> (int \<times> RDMAContext) option" where
  "qemu_rdma_add_block rdma host_addr block_off len =
     uu_qemu_rdma_add_block rdma host_addr block_off len"

text \<open>
  \<^verbatim>\<open>qemu_ram_foreach_block(qemu_rdma_init_one_block, rdma)\<close>: the RAM blocks of the
  hypervisor are given as the list of their \<open>(host_addr, block_offset, length)\<close>;
  \<^verbatim>\<open>qemu_rdma_init_one_block\<close> calls \<^verbatim>\<open>__qemu_rdma_add_block\<close> and drops its result.
\<close>

fun qemu_ram_foreach_block :: "RDMAContext \<Rightarrow> (u64 \<times> u64 \<times> u64) list \<Rightarrow> RDMAContext option" where
  "qemu_ram_foreach_block rdma [] = Some rdma"
| "qemu_ram_foreach_block rdma ((host_addr, block_off, len) # rbs) =
     (case uu_qemu_rdma_add_block rdma host_addr block_off len of
        None \<Rightarrow> None
      | Some (ret, rdma1) \<Rightarrow> qemu_ram_foreach_block rdma1 rbs)"

text \<open>
  \<^verbatim>\<open>
  assert(rdma->blockmap == NULL);
  rdma->blockmap = g_hash_table_new(g_direct_hash, g_direct_equal);
  memset(local, 0, sizeof *local);
  qemu_ram_foreach_block(qemu_rdma_init_one_block, rdma);
  rdma->block = (RDMARemoteBlock *) g_malloc0(sizeof(RDMARemoteBlock) *
                      rdma->local_ram_blocks.nb_blocks);
  local->init = true;
  return 0;
  \<close>
  The array \<^verbatim>\<open>rdma->block\<close> of the remote descriptions is not part of the model.
\<close>

definition qemu_rdma_init_ram_blocks ::
  "RDMAContext \<Rightarrow> (u64 \<times> u64 \<times> u64) list \<Rightarrow> (int \<times> RDMAContext) option" where
  "qemu_rdma_init_ram_blocks rdma rbs =
     (if blockmap rdma \<noteq> None then None
      else
        (case qemu_ram_foreach_block
                (rdma\<lparr>blockmap := Some Map.empty,
                      local_ram_blocks := \<lparr>nb_blocks = 0, init = False, block = []\<rparr>\<rparr>) rbs of
           None \<Rightarrow> None
         | Some rdma1 \<Rightarrow>
             Some (0, rdma1\<lparr>local_ram_blocks := (local_ram_blocks rdma1)\<lparr>init := True\<rparr>\<rparr>)))"

text \<open>
  The context \<^verbatim>\<open>qemu_rdma_data_init\<close> makes: \<^verbatim>\<open>g_malloc0\<close>, and the two indices of each
  of the three cursors set to \<open>-1\<close>.
\<close>

definition cursor_init :: RDMACurrentChunk where
  "cursor_init =
     \<lparr>current_addr = 0, current_length = 0, current_block_idx = - 1, current_chunk = - 1,
      block_offset = 0, cc_offset = 0, chunk_idx = 0, chunk_start = 0, chunk_end = 0,
      cc_block = None, addr = 0, chunks = 0\<rparr>"

definition qemu_rdma_data_init :: RDMAContext where
  "qemu_rdma_data_init =
     \<lparr>control_ready_expected = 0, nb_sent = 0,
      chunk_remote = cursor_init, chunk_local_src = cursor_init,
      chunk_local_dest = cursor_init, pin_all = False,
      local_ram_blocks = \<lparr>nb_blocks = 0, init = False, block = []\<rparr>,
      total_registrations = 0, total_writes = 0, blockmap = None,
      lc_src = \<lparr>lc_nb_sent = 0, max_nb_sent = 0\<rparr>,
      lc_dest = \<lparr>lc_nb_sent = 0, max_nb_sent = 0\<rparr>,
      lc_remote = \<lparr>lc_nb_sent = 0, max_nb_sent = 0\<rparr>,
      source = False\<rparr>"

subsection \<open>The adapter and the completion queues\<close>

text \<open>
  The three cursors and the three local contexts of an \<^verbatim>\<open>RDMAContext\<close>, named so that a
  function can take the pointer \<^verbatim>\<open>RDMACurrentChunk *\<close> or \<^verbatim>\<open>RDMALocalContext *\<close> as an
  argument.
\<close>

datatype cc_id = Chunk_remote | Chunk_local_src | Chunk_local_dest

datatype lc_id = Lc_src | Lc_dest | Lc_remote

fun get_cc :: "cc_id \<Rightarrow> RDMAContext \<Rightarrow> RDMACurrentChunk" where
  "get_cc Chunk_remote r = chunk_remote r"
| "get_cc Chunk_local_src r = chunk_local_src r"
| "get_cc Chunk_local_dest r = chunk_local_dest r"

fun set_cc :: "cc_id \<Rightarrow> RDMACurrentChunk \<Rightarrow> RDMAContext \<Rightarrow> RDMAContext" where
  "set_cc Chunk_remote c r = r\<lparr>chunk_remote := c\<rparr>"
| "set_cc Chunk_local_src c r = r\<lparr>chunk_local_src := c\<rparr>"
| "set_cc Chunk_local_dest c r = r\<lparr>chunk_local_dest := c\<rparr>"

fun get_lc :: "lc_id \<Rightarrow> RDMAContext \<Rightarrow> RDMALocalContext" where
  "get_lc Lc_src r = lc_src r"
| "get_lc Lc_dest r = lc_dest r"
| "get_lc Lc_remote r = lc_remote r"

fun set_lc :: "lc_id \<Rightarrow> RDMALocalContext \<Rightarrow> RDMAContext \<Rightarrow> RDMAContext" where
  "set_lc Lc_src l r = r\<lparr>lc_src := l\<rparr>"
| "set_lc Lc_dest l r = r\<lparr>lc_dest := l\<rparr>"
| "set_lc Lc_remote l r = r\<lparr>lc_remote := l\<rparr>"

text \<open>
  The work request of an RDMA WRITE that \<^verbatim>\<open>qemu_rdma_write\<close> posts: its ID, the address
  and the length of its one scatter/gather element, and the remote address. The keys come
  from memory regions of the verbs library and are left out.
\<close>

record ibv_send_wr =
  wr_id :: u64
  sge_addr :: u64
  sge_length :: u32
  remote_addr :: u64

text \<open>
  The answers of the verbs library, of the adapter and of the memory, in the order the
  code asks for them:
  \<^item> \<open>Poll_cq_none\<close>: \<^verbatim>\<open>ibv_poll_cq\<close> returns 0, the queue is empty;
  \<^item> \<open>Poll_cq_err r\<close>: \<^verbatim>\<open>ibv_poll_cq\<close> returns the negative \<open>r\<close>;
  \<^item> \<open>Poll_cq_wc id ok len\<close>: \<^verbatim>\<open>ibv_poll_cq\<close> returns one completion with
    \<^verbatim>\<open>wc.wr_id = id\<close>, \<^verbatim>\<open>wc.byte_len = len\<close>, and \<^verbatim>\<open>wc.status == IBV_WC_SUCCESS\<close>
    exactly when \<open>ok\<close>;
  \<^item> \<open>Ret r\<close>: the result of \<^verbatim>\<open>ibv_req_notify_cq\<close>, \<^verbatim>\<open>ibv_get_cq_event\<close>,
    \<^verbatim>\<open>ibv_post_send\<close> or \<^verbatim>\<open>ibv_post_recv\<close>;
  \<^item> \<open>Flag b\<close>: whether \<^verbatim>\<open>ibv_reg_mr\<close> gives a memory region, or whether the buffer holds
    zeros only;
  \<^item> \<open>Head t l\<close>: the type and the length in the header of the control message received;
  \<^item> \<open>Reg_result k a\<close>: the \<^verbatim>\<open>RDMARegisterResult\<close> in the control message received.
\<close>

datatype hw_answer =
    Poll_cq_none
  | Poll_cq_err int
  | Poll_cq_wc u64 bool u32
  | Ret int
  | Flag bool
  | Head u32 u32
  | Reg_result u32 u64

text \<open>What the code hands to the verbs library and to the accounting of the file.\<close>

datatype rdma_event =
    Ev_post_send lc_id ibv_send_wr
  | Ev_post_send_control u32 u32
  | Ev_post_recv int
  | Ev_acct_update_position u64 bool

text \<open>
  The state of a run: the \<^verbatim>\<open>RDMAContext\<close>; the RDMA WRITEs posted whose completion
  has not been polled yet, each with the queue pair it was posted to, in the order of the
  posting (the state of the adapter); what has been handed over so far; and the answers
  still to come. A function is undefined (\<open>None\<close>)
  when the answers end before it returns, when the next answer is of another call, and
  when the completion of an RDMA WRITE is reported that is not in flight.
\<close>

record rdma_world =
  rctx :: RDMAContext
  inflight :: "(lc_id \<times> ibv_send_wr) list"
  events :: "rdma_event list"
  answers :: "hw_answer list"

definition ask_ret :: "rdma_world \<Rightarrow> (int \<times> rdma_world) option" where
  "ask_ret w =
     (case answers w of
        Ret r # as \<Rightarrow> Some (r, w\<lparr>answers := as\<rparr>)
      | _ \<Rightarrow> None)"

definition ask_flag :: "rdma_world \<Rightarrow> (bool \<times> rdma_world) option" where
  "ask_flag w =
     (case answers w of
        Flag b # as \<Rightarrow> Some (b, w\<lparr>answers := as\<rparr>)
      | _ \<Rightarrow> None)"

definition ask_head :: "rdma_world \<Rightarrow> ((u32 \<times> u32) \<times> rdma_world) option" where
  "ask_head w =
     (case answers w of
        Head t l # as \<Rightarrow> Some ((t, l), w\<lparr>answers := as\<rparr>)
      | _ \<Rightarrow> None)"

definition ask_reg_result :: "rdma_world \<Rightarrow> ((u32 \<times> u64) \<times> rdma_world) option" where
  "ask_reg_result w =
     (case answers w of
        Reg_result k a # as \<Rightarrow> Some ((k, a), w\<lparr>answers := as\<rparr>)
      | _ \<Rightarrow> None)"

text \<open>
  The adapter takes the first work request with the ID out of the requests in flight on
  the queue pair.
\<close>

fun remove_wr :: "lc_id \<Rightarrow> u64 \<Rightarrow> (lc_id \<times> ibv_send_wr) list \<Rightarrow> (lc_id \<times> ibv_send_wr) list option" where
  "remove_wr lc i [] = None"
| "remove_wr lc i (x # xs) =
     (if fst x = lc \<and> wr_id (snd x) = i then Some xs
      else map_option ((#) x) (remove_wr lc i xs))"

definition hw_complete :: "lc_id \<Rightarrow> u64 \<Rightarrow> rdma_world \<Rightarrow> rdma_world option" where
  "hw_complete lc full w =
     (if full AND RDMA_WRID_TYPE_MASK = word_of_int RDMA_WRID_RDMA_WRITE_REMOTE
      then map_option (\<lambda>xs. w\<lparr>inflight := xs\<rparr>) (remove_wr lc full (inflight w))
      else Some w)"

text \<open>
  \<^verbatim>\<open>qemu_rdma_poll\<close>, with the results \<^verbatim>\<open>(return value, *wr_id_out, *byte_len)\<close>: a
  pointer the function has not written through gives \<open>None\<close>. The function returns a
  \<^verbatim>\<open>uint64_t\<close>, so the \<^verbatim>\<open>int ret\<close> and the \<open>-1\<close> are converted. The time stamps of the
  debug output are left out.
  \<^verbatim>\<open>
  ret = ibv_poll_cq(lc->cq, 1, &wc);
  if (!ret) { *wr_id_out = RDMA_WRID_NONE; return 0; }
  if (ret < 0) { return ret; }
  wr_id = wc.wr_id & RDMA_WRID_TYPE_MASK;
  if (wc.status != IBV_WC_SUCCESS) { return -1; }
  if (rdma->control_ready_expected && (wr_id >= RDMA_WRID_RECV_CONTROL)) {
      rdma->control_ready_expected = 0;
  }
  if (wr_id == RDMA_WRID_RDMA_WRITE_REMOTE) {
      uint64_t chunk = (wc.wr_id & RDMA_WRID_CHUNK_MASK) >> RDMA_WRID_CHUNK_SHIFT;
      uint64_t block_idx = (wc.wr_id & RDMA_WRID_BLOCK_MASK) >> RDMA_WRID_BLOCK_SHIFT;
      RDMALocalBlock *block = &(rdma->local_ram_blocks.block[block_idx]);
      clear_bit(chunk, block->transit_bitmap);
      if (lc->nb_sent > lc->max_nb_sent) { lc->max_nb_sent = lc->nb_sent; }
      if (rdma->nb_sent > 0) { rdma->nb_sent--; }
      if (lc->nb_sent > 0) { lc->nb_sent--; }
  }
  *wr_id_out = wc.wr_id;
  if (byte_len) { *byte_len = wc.byte_len; }
  return  0;
  \<close>
\<close>

definition clear_transit :: "nat \<Rightarrow> nat \<Rightarrow> RDMAContext \<Rightarrow> RDMAContext" where
  "clear_transit bi ci r =
     (let bs = block (local_ram_blocks r);
          b = bs ! bi
      in r\<lparr>local_ram_blocks :=
             (local_ram_blocks r)
               \<lparr>block := bs[bi := b\<lparr>transit_bitmap := (transit_bitmap b)[ci := False]\<rparr>]\<rparr>\<rparr>)"

definition poll_write_completed :: "lc_id \<Rightarrow> u64 \<Rightarrow> RDMAContext \<Rightarrow> RDMAContext option" where
  "poll_write_completed lc full r1 =
     (let chunk = drop_bit RDMA_WRID_CHUNK_SHIFT (full AND RDMA_WRID_CHUNK_MASK);
          block_idx = drop_bit RDMA_WRID_BLOCK_SHIFT (full AND RDMA_WRID_BLOCK_MASK);
          bs = block (local_ram_blocks r1)
      in if length bs \<le> unat block_idx then None
         else if length (transit_bitmap (bs ! unat block_idx)) \<le> unat chunk then None
         else
           (let r2 = clear_transit (unat block_idx) (unat chunk) r1;
                l = get_lc lc r2;
                l1 = (if lc_nb_sent l > max_nb_sent l
                      then l\<lparr>max_nb_sent := lc_nb_sent l\<rparr> else l);
                r3 = (if nb_sent r2 > 0 then r2\<lparr>nb_sent := nb_sent r2 - 1\<rparr> else r2);
                l2 = (if lc_nb_sent l1 > 0 then l1\<lparr>lc_nb_sent := lc_nb_sent l1 - 1\<rparr> else l1)
            in Some (set_lc lc l2 r3)))"

definition poll_completed :: "lc_id \<Rightarrow> u64 \<Rightarrow> RDMAContext \<Rightarrow> RDMAContext option" where
  "poll_completed lc full r =
     (let wr = full AND RDMA_WRID_TYPE_MASK;
          r1 = (if control_ready_expected r \<noteq> 0 \<and> word_of_int RDMA_WRID_RECV_CONTROL \<le> wr
                then r\<lparr>control_ready_expected := 0\<rparr> else r)
      in if wr = word_of_int RDMA_WRID_RDMA_WRITE_REMOTE then poll_write_completed lc full r1
         else Some r1)"

definition qemu_rdma_poll ::
  "lc_id \<Rightarrow> rdma_world \<Rightarrow> (u64 \<times> u64 option \<times> u32 option \<times> rdma_world) option" where
  "qemu_rdma_poll lc w =
     (case answers w of
        Poll_cq_none # as \<Rightarrow>
          Some (0, Some (word_of_int RDMA_WRID_NONE), None, w\<lparr>answers := as\<rparr>)
      | Poll_cq_err ret # as \<Rightarrow>
          if ret < 0 then Some (word_of_int ret, None, None, w\<lparr>answers := as\<rparr>) else None
      | Poll_cq_wc full ok blen # as \<Rightarrow>
          (case hw_complete lc full (w\<lparr>answers := as\<rparr>) of
             None \<Rightarrow> None
           | Some w1 \<Rightarrow>
               if \<not> ok then Some (word_of_int (- 1), None, None, w1)
               else
                 (case poll_completed lc full (rctx w1) of
                    None \<Rightarrow> None
                  | Some r \<Rightarrow> Some (0, Some full, Some blen, w1\<lparr>rctx := r\<rparr>)))
      | _ \<Rightarrow> None)"

lemma hw_complete_answers: "hw_complete lc full w = Some w1 \<Longrightarrow> answers w1 = answers w"
  by (auto simp: hw_complete_def split: if_splits)

lemma qemu_rdma_poll_cases:
  assumes "qemu_rdma_poll lc w = Some res"
  obtains
    (none) as where "answers w = Poll_cq_none # as"
      "res = (0, Some (word_of_int RDMA_WRID_NONE), None, w\<lparr>answers := as\<rparr>)"
  | (error) ret as where "answers w = Poll_cq_err ret # as" "ret < 0"
      "res = (word_of_int ret, None, None, w\<lparr>answers := as\<rparr>)"
  | (failed) full blen as w1 where "answers w = Poll_cq_wc full False blen # as"
      "hw_complete lc full (w\<lparr>answers := as\<rparr>) = Some w1"
      "res = (word_of_int (- 1), None, None, w1)"
  | (completed) full blen as w1 r where "answers w = Poll_cq_wc full True blen # as"
      "hw_complete lc full (w\<lparr>answers := as\<rparr>) = Some w1"
      "poll_completed lc full (rctx w1) = Some r"
      "res = (0, Some full, Some blen, w1\<lparr>rctx := r\<rparr>)"
proof (cases "answers w")
  case Nil
  then show ?thesis using assms by (simp add: qemu_rdma_poll_def)
next
  case (Cons a as)
  show ?thesis
  proof (cases a)
    case Poll_cq_none
    then show ?thesis using assms Cons none by (simp add: qemu_rdma_poll_def)
  next
    case (Poll_cq_err ret)
    then show ?thesis using assms Cons error
      by (simp add: qemu_rdma_poll_def split: if_splits)
  next
    case (Poll_cq_wc full ok blen)
    then show ?thesis using assms Cons failed[of full blen as] completed[of full blen as]
      by (cases ok) (auto simp: qemu_rdma_poll_def split: option.splits)
  qed (use assms Cons in \<open>simp_all add: qemu_rdma_poll_def\<close>)
qed

lemma qemu_rdma_poll_answers:
  assumes "qemu_rdma_poll lc w = Some (pr, out, bl, w1)"
  shows "length (answers w1) < length (answers w)"
  using assms
proof (cases rule: qemu_rdma_poll_cases)
  case (failed full blen as w0)
  then show ?thesis using hw_complete_answers[OF failed(2)] by simp
next
  case (completed full blen as w0 r)
  then show ?thesis using hw_complete_answers[OF completed(2)] by simp
qed simp_all

text \<open>
  The loop of \<^verbatim>\<open>qemu_rdma_block_for_wrid\<close> that polls the queue, with the results
  \<^verbatim>\<open>(ret, wr_id, *byte_len)\<close>:
  \<^verbatim>\<open>
  while (wr_id != wrid_requested) {
      ret = qemu_rdma_poll(rdma, lc, &wr_id_in, byte_len);
      if (ret < 0) { return ret; }
      wr_id = wr_id_in & RDMA_WRID_TYPE_MASK;
      if (wr_id == RDMA_WRID_NONE) { break; }
  }
  \<close>
\<close>

function poll_loop ::
  "lc_id \<Rightarrow> int \<Rightarrow> u64 \<Rightarrow> u32 option \<Rightarrow> rdma_world
   \<Rightarrow> (int \<times> u64 \<times> u32 option \<times> rdma_world) option" where
  "poll_loop lc wrid_requested wr byte_len w =
     (if wr = word_of_int wrid_requested then Some (0, wr, byte_len, w)
      else
        (case qemu_rdma_poll lc w of
           None \<Rightarrow> None
         | Some (pr, wr_id_in, bl, w1) \<Rightarrow>
             (let ret = sint (ucast pr :: 32 word);
                  byte_len1 = (case bl of None \<Rightarrow> byte_len | Some x \<Rightarrow> Some x)
              in if ret < 0 then Some (ret, wr, byte_len1, w1)
                 else
                   (case wr_id_in of
                      None \<Rightarrow> None
                    | Some i \<Rightarrow>
                        (let wr1 = i AND RDMA_WRID_TYPE_MASK
                         in if wr1 = word_of_int RDMA_WRID_NONE
                            then Some (0, wr1, byte_len1, w1)
                            else poll_loop lc wrid_requested wr1 byte_len1 w1)))))"
  by pat_completeness auto

termination poll_loop
  by (relation "measure (\<lambda>(lc, wrid_requested, wr, byte_len, w). length (answers w))")
    (auto dest: qemu_rdma_poll_answers)

declare poll_loop.simps [simp del]

lemma poll_loop_cases:
  assumes "poll_loop lc wrid wr bl w = Some res"
  obtains
    (stop) "wr = word_of_int wrid" "res = (0, wr, bl, w)"
  | (err) pr out b w0 where "wr \<noteq> word_of_int wrid"
      "qemu_rdma_poll lc w = Some (pr, out, b, w0)" "sint (ucast pr :: 32 word) < 0"
      "res = (sint (ucast pr :: 32 word), wr, (case b of None \<Rightarrow> bl | Some x \<Rightarrow> Some x), w0)"
  | (empty) pr i b w0 where "wr \<noteq> word_of_int wrid"
      "qemu_rdma_poll lc w = Some (pr, Some i, b, w0)" "\<not> sint (ucast pr :: 32 word) < 0"
      "i AND RDMA_WRID_TYPE_MASK = word_of_int RDMA_WRID_NONE"
      "res = (0, i AND RDMA_WRID_TYPE_MASK, (case b of None \<Rightarrow> bl | Some x \<Rightarrow> Some x), w0)"
  | (again) pr i b w0 where "wr \<noteq> word_of_int wrid"
      "qemu_rdma_poll lc w = Some (pr, Some i, b, w0)" "\<not> sint (ucast pr :: 32 word) < 0"
      "i AND RDMA_WRID_TYPE_MASK \<noteq> word_of_int RDMA_WRID_NONE"
      "poll_loop lc wrid (i AND RDMA_WRID_TYPE_MASK)
         (case b of None \<Rightarrow> bl | Some x \<Rightarrow> Some x) w0 = Some res"
  using assms
  by (subst (asm) poll_loop.simps) (auto simp: Let_def split: option.splits if_splits)

lemma poll_loop_answers:
  "poll_loop lc wrid wr bl w = Some (ret, wr1, bl1, w1)
   \<Longrightarrow> length (answers w1) \<le> length (answers w)"
proof (induction "length (answers w)" arbitrary: w wr bl rule: less_induct)
  case less
  from less.prems show ?case
  proof (cases rule: poll_loop_cases)
    case stop
    then show ?thesis by simp
  next
    case (err pr out b w0)
    then show ?thesis using qemu_rdma_poll_answers[OF err(2)] by simp
  next
    case (empty pr i b w0)
    then show ?thesis using qemu_rdma_poll_answers[OF empty(2)] by simp
  next
    case (again pr i b w0)
    note le = qemu_rdma_poll_answers[OF again(2)]
    show ?thesis using less.hyps[OF le again(5)] le by simp
  qed
qed

text \<open>
  The loop of \<^verbatim>\<open>qemu_rdma_block_for_wrid\<close> that waits for an event of the completion
  channel, with the results \<^verbatim>\<open>(ret, *byte_len)\<close>:
  \<^verbatim>\<open>
  while (1) {
      ret = ibv_get_cq_event(lc->comp_chan, &cq, &cq_ctx);
      if (ret < 0) { goto err_block_for_wrid; }
      num_cq_events++;
      ret = ibv_req_notify_cq(cq, 0);
      if (ret) { ret = -ret; goto err_block_for_wrid; }
      while (wr_id != wrid_requested) { ... }
      if (wr_id == wrid_requested) { goto success_block_for_wrid; }
  }
  \<close>
\<close>

function cq_event_loop ::
  "lc_id \<Rightarrow> int \<Rightarrow> u64 \<Rightarrow> u32 option \<Rightarrow> rdma_world
   \<Rightarrow> (int \<times> u32 option \<times> rdma_world) option" where
  "cq_event_loop lc wrid_requested wr byte_len w =
     (case ask_ret w of
        None \<Rightarrow> None
      | Some (ret, w1) \<Rightarrow>
          if ret < 0 then Some (ret, byte_len, w1)
          else
            (case ask_ret w1 of
               None \<Rightarrow> None
             | Some (ret2, w2) \<Rightarrow>
                 if ret2 \<noteq> 0 then Some (- ret2, byte_len, w2)
                 else
                   (case poll_loop lc wrid_requested wr byte_len w2 of
                      None \<Rightarrow> None
                    | Some (ret3, wr1, byte_len1, w3) \<Rightarrow>
                        if ret3 < 0 then Some (ret3, byte_len1, w3)
                        else if wr1 = word_of_int wrid_requested then Some (0, byte_len1, w3)
                        else cq_event_loop lc wrid_requested wr1 byte_len1 w3)))"
  by pat_completeness auto

lemma ask_ret_answers:
  "ask_ret w = Some (r, w1) \<Longrightarrow> length (answers w1) < length (answers w)"
  by (auto simp: ask_ret_def split: list.splits hw_answer.splits)

lemma ask_flag_answers:
  "ask_flag w = Some (r, w1) \<Longrightarrow> length (answers w1) < length (answers w)"
  by (auto simp: ask_flag_def split: list.splits hw_answer.splits)

lemma ask_head_answers:
  "ask_head w = Some (r, w1) \<Longrightarrow> length (answers w1) < length (answers w)"
  by (auto simp: ask_head_def split: list.splits hw_answer.splits)

lemma ask_reg_result_answers:
  "ask_reg_result w = Some (r, w1) \<Longrightarrow> length (answers w1) < length (answers w)"
  by (auto simp: ask_reg_result_def split: list.splits hw_answer.splits)

termination cq_event_loop
  by (relation "measure (\<lambda>(lc, wrid_requested, wr, byte_len, w). length (answers w))")
    (auto dest!: ask_ret_answers poll_loop_answers)

declare cq_event_loop.simps [simp del]

lemma cq_event_loop_cases:
  assumes "cq_event_loop lc wrid wr bl w = Some res"
  obtains
    (event_err) ret w1 where "ask_ret w = Some (ret, w1)" "ret < 0" "res = (ret, bl, w1)"
  | (notify_err) ret w1 ret2 w2 where "ask_ret w = Some (ret, w1)" "\<not> ret < 0"
      "ask_ret w1 = Some (ret2, w2)" "ret2 \<noteq> 0" "res = (- ret2, bl, w2)"
  | (poll_err) ret w1 w2 ret3 wr1 bl1 w3 where "ask_ret w = Some (ret, w1)" "\<not> ret < 0"
      "ask_ret w1 = Some (0, w2)" "poll_loop lc wrid wr bl w2 = Some (ret3, wr1, bl1, w3)"
      "ret3 < 0" "res = (ret3, bl1, w3)"
  | (found) ret w1 w2 ret3 wr1 bl1 w3 where "ask_ret w = Some (ret, w1)" "\<not> ret < 0"
      "ask_ret w1 = Some (0, w2)" "poll_loop lc wrid wr bl w2 = Some (ret3, wr1, bl1, w3)"
      "\<not> ret3 < 0" "wr1 = word_of_int wrid" "res = (0, bl1, w3)"
  | (again) ret w1 w2 ret3 wr1 bl1 w3 where "ask_ret w = Some (ret, w1)" "\<not> ret < 0"
      "ask_ret w1 = Some (0, w2)" "poll_loop lc wrid wr bl w2 = Some (ret3, wr1, bl1, w3)"
      "\<not> ret3 < 0" "wr1 \<noteq> word_of_int wrid"
      "cq_event_loop lc wrid wr1 bl1 w3 = Some res"
  using assms
  by (subst (asm) cq_event_loop.simps) (auto simp: Let_def split: option.splits if_splits)

lemma cq_event_loop_answers:
  "cq_event_loop lc wrid wr bl w = Some (ret, bl1, w1)
   \<Longrightarrow> length (answers w1) < length (answers w)"
proof (induction "length (answers w)" arbitrary: w wr bl rule: less_induct)
  case less
  from less.prems show ?case
  proof (cases rule: cq_event_loop_cases)
    case (event_err r wa)
    then show ?thesis using ask_ret_answers[OF event_err(1)] by simp
  next
    case (notify_err r wa r2 wb)
    then show ?thesis
      using ask_ret_answers[OF notify_err(1)] ask_ret_answers[OF notify_err(3)] by simp
  next
    case (poll_err r wa wb r3 wr1 bl3 wc)
    then show ?thesis
      using ask_ret_answers[OF poll_err(1)] ask_ret_answers[OF poll_err(3)]
        poll_loop_answers[OF poll_err(4)] by simp
  next
    case (found r wa wb r3 wr1 bl3 wc)
    then show ?thesis
      using ask_ret_answers[OF found(1)] ask_ret_answers[OF found(3)]
        poll_loop_answers[OF found(4)] by simp
  next
    case (again r wa wb r3 wr1 bl3 wc)
    have lt: "length (answers wc) < length (answers w)"
      using ask_ret_answers[OF again(1)] ask_ret_answers[OF again(3)]
        poll_loop_answers[OF again(4)] by simp
    show ?thesis using less.hyps[OF lt again(7)] lt by simp
  qed
qed

text \<open>
  \<^verbatim>\<open>qemu_rdma_block_for_wrid\<close>, with the results \<^verbatim>\<open>(ret, *byte_len)\<close>:
  \<^verbatim>\<open>
  uint64_t wr_id = RDMA_WRID_NONE, wr_id_in;
  ret = ibv_req_notify_cq(lc->cq, 0);
  if (ret) { return -ret; }
  while (wr_id != wrid_requested) { ... }
  if (wr_id == wrid_requested) { return 0; }
  while (1) { ... }
  \<close>
\<close>

definition qemu_rdma_block_for_wrid ::
  "lc_id \<Rightarrow> int \<Rightarrow> rdma_world \<Rightarrow> (int \<times> u32 option \<times> rdma_world) option" where
  "qemu_rdma_block_for_wrid lc wrid_requested w =
     (case ask_ret w of
        None \<Rightarrow> None
      | Some (ret, w1) \<Rightarrow>
          if ret \<noteq> 0 then Some (- ret, None, w1)
          else
            (case poll_loop lc wrid_requested (word_of_int RDMA_WRID_NONE) None w1 of
               None \<Rightarrow> None
             | Some (ret2, wr, byte_len, w2) \<Rightarrow>
                 if ret2 < 0 then Some (ret2, byte_len, w2)
                 else if wr = word_of_int wrid_requested then Some (0, byte_len, w2)
                 else cq_event_loop lc wrid_requested wr byte_len w2))"

lemma qemu_rdma_block_for_wrid_answers:
  "qemu_rdma_block_for_wrid lc wrid w = Some (ret, bl, w1)
   \<Longrightarrow> length (answers w1) < length (answers w)"
  by (auto simp: qemu_rdma_block_for_wrid_def split: option.splits if_splits
      dest!: ask_ret_answers poll_loop_answers cq_event_loop_answers)

subsection \<open>The control channel\<close>

text \<open>
  \<^verbatim>\<open>qemu_rdma_post_send_control\<close>, for a header of the type \<open>t\<close> and the length \<open>l\<close>:
  \<^verbatim>\<open>
  assert(head->len <= RDMA_CONTROL_MAX_BUFFER - sizeof(*head));
  if (ibv_post_send(rdma->lc_remote.qp, &send_wr, &bad_wr)) { return -1; }
  ret = qemu_rdma_block_for_wrid(rdma, &rdma->lc_remote, RDMA_WRID_SEND_CONTROL, NULL);
  return ret;
  \<close>
\<close>

definition qemu_rdma_post_send_control ::
  "u32 \<Rightarrow> u32 \<Rightarrow> rdma_world \<Rightarrow> (int \<times> rdma_world) option" where
  "qemu_rdma_post_send_control t l w =
     (if RDMA_CONTROL_MAX_BUFFER - sizeof_RDMAControlHeader < unat l then None
      else
        (case ask_ret (w\<lparr>events := events w @ [Ev_post_send_control t l]\<rparr>) of
           None \<Rightarrow> None
         | Some (ret, w1) \<Rightarrow>
             if ret \<noteq> 0 then Some (- 1, w1)
             else
               (case qemu_rdma_block_for_wrid Lc_remote RDMA_WRID_SEND_CONTROL w1 of
                  None \<Rightarrow> None
                | Some (ret2, byte_len, w2) \<Rightarrow> Some (ret2, w2))))"

text \<open>
  \<^verbatim>\<open>qemu_rdma_post_recv_control\<close>:
  \<^verbatim>\<open>
  struct ibv_recv_wr recv_wr = { .wr_id = RDMA_WRID_RECV_CONTROL + idx, ... };
  if (ibv_post_recv(rdma->lc_remote.qp, &recv_wr, &bad_wr)) { return -1; }
  return 0;
  \<close>
\<close>

definition qemu_rdma_post_recv_control :: "int \<Rightarrow> rdma_world \<Rightarrow> (int \<times> rdma_world) option" where
  "qemu_rdma_post_recv_control idx w =
     (case ask_ret (w\<lparr>events := events w @ [Ev_post_recv (RDMA_WRID_RECV_CONTROL + idx)]\<rparr>) of
        None \<Rightarrow> None
      | Some (ret, w1) \<Rightarrow> if ret \<noteq> 0 then Some (- 1, w1) else Some (0, w1))"

text \<open>
  \<^verbatim>\<open>qemu_rdma_exchange_get_response\<close>:
  \<^verbatim>\<open>
  int ret = qemu_rdma_block_for_wrid(rdma, &rdma->lc_remote,
                                     RDMA_WRID_RECV_CONTROL + idx, &byte_len);
  if (ret < 0) { return ret; }
  network_to_control((void *) rdma->wr_data[idx].control);
  memcpy(head, rdma->wr_data[idx].control, sizeof(RDMAControlHeader));
  if (expecting == RDMA_CONTROL_NONE) {
  } else if (head->type != expecting || head->type == RDMA_CONTROL_ERROR) {
      return -EIO;
  }
  if (head->len > RDMA_CONTROL_MAX_BUFFER - sizeof(*head)) { return -EINVAL; }
  if (sizeof(*head) + head->len != byte_len) { return -EINVAL; }
  return 0;
  \<close>
\<close>

definition qemu_rdma_exchange_get_response ::
  "u32 \<Rightarrow> int \<Rightarrow> rdma_world \<Rightarrow> (int \<times> rdma_world) option" where
  "qemu_rdma_exchange_get_response expecting idx w =
     (case qemu_rdma_block_for_wrid Lc_remote (RDMA_WRID_RECV_CONTROL + idx) w of
        None \<Rightarrow> None
      | Some (ret, byte_len, w1) \<Rightarrow>
          if ret < 0 then Some (ret, w1)
          else
            (case ask_head w1 of
               None \<Rightarrow> None
             | Some ((t, l), w2) \<Rightarrow>
                 if expecting \<noteq> RDMA_CONTROL_NONE \<and> (t \<noteq> expecting \<or> t = RDMA_CONTROL_ERROR)
                 then Some (- EIO, w2)
                 else if RDMA_CONTROL_MAX_BUFFER - sizeof_RDMAControlHeader < unat l
                 then Some (- EINVAL, w2)
                 else
                   (case byte_len of
                      None \<Rightarrow> None
                    | Some n \<Rightarrow>
                        if sizeof_RDMAControlHeader + unat l \<noteq> unat n
                        then Some (- EINVAL, w2)
                        else Some (0, w2))))"

text \<open>
  \<^verbatim>\<open>qemu_rdma_exchange_send\<close> without a callback, as \<^verbatim>\<open>qemu_rdma_write\<close> calls it;
  \<open>resp\<close> is the type of the response the caller expects, \<open>None\<close> for \<^verbatim>\<open>NULL\<close>:
  \<^verbatim>\<open>
  if (rdma->control_ready_expected) {
      ret = qemu_rdma_exchange_get_response(rdma, &resp, RDMA_CONTROL_READY, RDMA_WRID_READY);
      if (ret < 0) { return ret; }
  }
  if (resp) {
      ret = qemu_rdma_post_recv_control(rdma, RDMA_WRID_DATA);
      if (ret) { return ret; }
  }
  ret = qemu_rdma_post_recv_control(rdma, RDMA_WRID_READY);
  if (ret) { return ret; }
  ret = qemu_rdma_post_send_control(rdma, data, head);
  if (ret < 0) { return ret; }
  if (resp) {
      ret = qemu_rdma_exchange_get_response(rdma, resp, resp->type, RDMA_WRID_DATA);
      if (ret < 0) { return ret; }
      qemu_rdma_move_header(rdma, RDMA_WRID_DATA, resp);
  }
  rdma->control_ready_expected = 1;
  return 0;
  \<close>
\<close>

definition exchange_send_ready :: "rdma_world \<Rightarrow> (int \<times> rdma_world) option" where
  "exchange_send_ready w =
     (if control_ready_expected (rctx w) \<noteq> 0
      then qemu_rdma_exchange_get_response RDMA_CONTROL_READY RDMA_WRID_READY w
      else Some (0, w))"

definition exchange_send_post_recv :: "u32 option \<Rightarrow> rdma_world \<Rightarrow> (int \<times> rdma_world) option" where
  "exchange_send_post_recv resp w =
     (case (if resp \<noteq> None then qemu_rdma_post_recv_control RDMA_WRID_DATA w
            else Some (0, w)) of
        None \<Rightarrow> None
      | Some (ret, w1) \<Rightarrow>
          if ret \<noteq> 0 then Some (ret, w1)
          else qemu_rdma_post_recv_control RDMA_WRID_READY w1)"

definition exchange_send_response :: "u32 option \<Rightarrow> rdma_world \<Rightarrow> (int \<times> rdma_world) option" where
  "exchange_send_response resp w =
     (case resp of
        None \<Rightarrow> Some (0, w)
      | Some t \<Rightarrow> qemu_rdma_exchange_get_response t RDMA_WRID_DATA w)"

definition qemu_rdma_exchange_send ::
  "u32 \<Rightarrow> u32 \<Rightarrow> u32 option \<Rightarrow> rdma_world \<Rightarrow> (int \<times> rdma_world) option" where
  "qemu_rdma_exchange_send t l resp w =
     (case exchange_send_ready w of
        None \<Rightarrow> None
      | Some (ret, w1) \<Rightarrow>
          if ret < 0 then Some (ret, w1)
          else
            (case exchange_send_post_recv resp w1 of
               None \<Rightarrow> None
             | Some (ret2, w2) \<Rightarrow>
                 if ret2 \<noteq> 0 then Some (ret2, w2)
                 else
                   (case qemu_rdma_post_send_control t l w2 of
                      None \<Rightarrow> None
                    | Some (ret3, w3) \<Rightarrow>
                        if ret3 < 0 then Some (ret3, w3)
                        else
                          (case exchange_send_response resp w3 of
                             None \<Rightarrow> None
                           | Some (ret4, w4) \<Rightarrow>
                               if ret4 < 0 then Some (ret4, w4)
                               else Some (0, w4\<lparr>rctx :=
                                                (rctx w4)\<lparr>control_ready_expected := 1\<rparr>\<rparr>)))))"

subsection \<open>The write engine\<close>

text \<open>
  \<^verbatim>\<open>qemu_rdma_register_and_get_keys\<close> for the cursor \<open>c\<close>; the keys it hands out are
  those of a memory region and are left out. The function reads through the pointer
  \<^verbatim>\<open>cc->block\<close> and indexes the array of memory regions with \<^verbatim>\<open>cc->chunk_idx\<close>:
  undefined when the pointer is not set or the index is not one of the array.
  \<^verbatim>\<open>
  struct ibv_mr ***pmr = copy ? (rdma->source ? &cc->block->pmr_src :
                         &cc->block->pmr_dest) : &cc->block->pmr;
  struct ibv_mr **mr = copy ? (rdma->source ? &cc->block->mr_src :
                       &cc->block->mr_dest) : &cc->block->mr;
  if (*mr) { return 0; }
  if (!(*pmr)) {
      *pmr = g_malloc0(cc->block->nb_chunks * sizeof(struct ibv_mr *));
      if (!(*pmr)) { return -1; }
  }
  if (!(*pmr)[cc->chunk_idx]) {
      (*pmr)[cc->chunk_idx] = ibv_reg_mr(lc->pd, cc->chunk_start, len, ...);
      if (!(*pmr)[cc->chunk_idx]) { return -1; }
      rdma->total_registrations++;
  }
  return 0;
  \<close>
\<close>

datatype mr_slot = Mr_remote | Mr_src | Mr_dest

fun get_mr :: "mr_slot \<Rightarrow> RDMALocalBlock \<Rightarrow> bool" where
  "get_mr Mr_remote b = mr b"
| "get_mr Mr_src b = mr_src b"
| "get_mr Mr_dest b = mr_dest b"

fun get_pmr :: "mr_slot \<Rightarrow> RDMALocalBlock \<Rightarrow> bool list option" where
  "get_pmr Mr_remote b = pmr b"
| "get_pmr Mr_src b = pmr_src b"
| "get_pmr Mr_dest b = pmr_dest b"

fun set_pmr :: "mr_slot \<Rightarrow> bool list option \<Rightarrow> RDMALocalBlock \<Rightarrow> RDMALocalBlock" where
  "set_pmr Mr_remote p b = b\<lparr>pmr := p\<rparr>"
| "set_pmr Mr_src p b = b\<lparr>pmr_src := p\<rparr>"
| "set_pmr Mr_dest p b = b\<lparr>pmr_dest := p\<rparr>"

definition set_block :: "nat \<Rightarrow> RDMALocalBlock \<Rightarrow> RDMAContext \<Rightarrow> RDMAContext" where
  "set_block bi b r =
     r\<lparr>local_ram_blocks := (local_ram_blocks r)\<lparr>block := (block (local_ram_blocks r))[bi := b]\<rparr>\<rparr>"

definition int_incr :: "int \<Rightarrow> int option" where
  "int_incr x = (if x < INT_MAX then Some (x + 1) else None)"

definition qemu_rdma_register_and_get_keys ::
  "cc_id \<Rightarrow> bool \<Rightarrow> rdma_world \<Rightarrow> (int \<times> rdma_world) option" where
  "qemu_rdma_register_and_get_keys c copy w =
     (let r = rctx w;
          cc = get_cc c r;
          slot = (if copy then (if source r then Mr_src else Mr_dest) else Mr_remote)
      in case cc_block cc of
           None \<Rightarrow> None
         | Some bi \<Rightarrow>
             if length (block (local_ram_blocks r)) \<le> bi then None
             else
               (let b = block (local_ram_blocks r) ! bi
                in if get_mr slot b then Some (0, w)
                   else
                     (let p = (case get_pmr slot b of
                                 None \<Rightarrow> replicate (nat (nb_chunks b)) False
                               | Some p \<Rightarrow> p);
                          w1 = w\<lparr>rctx := set_block bi (set_pmr slot (Some p) b) r\<rparr>
                      in if get_pmr slot b = None \<and> nb_chunks b < 0 then None
                         else if get_pmr slot b = None \<and> nb_chunks b = 0 then Some (- 1, w)
                         else if length p \<le> unat (chunk_idx cc) then None
                         else if p ! unat (chunk_idx cc) then Some (0, w1)
                         else
                           (case ask_flag w1 of
                              None \<Rightarrow> None
                            | Some (ok, w2) \<Rightarrow>
                                if \<not> ok then Some (- 1, w2)
                                else
                                  (case int_incr (total_registrations r) of
                                     None \<Rightarrow> None
                                   | Some n \<Rightarrow>
                                       Some (0, w2\<lparr>rctx :=
                                                  (set_block bi
                                                     (set_pmr slot
                                                        (Some (p[unat (chunk_idx cc) := True]))
                                                        b) r)
                                                  \<lparr>total_registrations := n\<rparr>\<rparr>))))))"

text \<open>
  \<^verbatim>\<open>src->block = &(rdma->local_ram_blocks.block[src->current_block_idx]);\<close> followed by
  \<^verbatim>\<open>install_boundaries(rdma, src)\<close>, undefined when the index is not one of the array:
  \<^verbatim>\<open>
  uint64_t len = cc->block->is_ram_block ? cc->current_length : cc->block->length;
  cc->chunks = len / (1UL << RDMA_REG_CHUNK_SHIFT);
  if (cc->chunks && ((len % (1UL << RDMA_REG_CHUNK_SHIFT)) == 0)) { cc->chunks--; }
  cc->addr = (uint8_t *) (uint64_t)(cc->block->local_host_addr +
                               (cc->current_addr - cc->block->offset));
  cc->chunk_idx = ram_chunk_index(cc->block->local_host_addr, cc->addr);
  cc->chunk_start = ram_chunk_start(cc->block, cc->chunk_idx);
  cc->chunk_end = ram_chunk_end(cc->block, cc->chunk_idx + cc->chunks);
  \<close>
\<close>

definition install_boundaries :: "RDMALocalBlock \<Rightarrow> RDMACurrentChunk \<Rightarrow> RDMACurrentChunk" where
  "install_boundaries b cc =
     (let len = (if is_ram_block b then current_length cc else length_b b);
          n = len div push_bit RDMA_REG_CHUNK_SHIFT 1;
          n1 = (if n \<noteq> 0 \<and> len mod push_bit RDMA_REG_CHUNK_SHIFT 1 = 0 then n - 1 else n);
          a = local_host_addr b + (current_addr cc - offset b);
          ci = ram_chunk_index (local_host_addr b) a
      in cc\<lparr>chunks := n1, addr := a, chunk_idx := ci,
            chunk_start := ram_chunk_start b ci,
            chunk_end := ram_chunk_end b (ci + n1)\<rparr>)"

definition cursor_boundaries :: "cc_id \<Rightarrow> RDMAContext \<Rightarrow> RDMAContext option" where
  "cursor_boundaries c r =
     (let cc = get_cc c r;
          bs = block (local_ram_blocks r)
      in if current_block_idx cc < 0 \<or> int (length bs) \<le> current_block_idx cc then None
         else
           Some (set_cc c
                   (install_boundaries (bs ! nat (current_block_idx cc))
                      (cc\<lparr>cc_block := Some (nat (current_block_idx cc))\<rparr>)) r))"

text \<open>
  The part of \<^verbatim>\<open>qemu_rdma_write\<close> at the label \<^verbatim>\<open>retry\<close>:
  \<^verbatim>\<open>
  src->block = &(rdma->local_ram_blocks.block[src->current_block_idx]);
  install_boundaries(rdma, src);
  if (dest) {
      dest->block = &(rdma->local_ram_blocks.block[dest->current_block_idx]);
      install_boundaries(rdma, dest);
  }
  \<close>
\<close>

definition write_boundaries :: "cc_id \<Rightarrow> cc_id option \<Rightarrow> rdma_world \<Rightarrow> rdma_world option" where
  "write_boundaries src dest w =
     (case cursor_boundaries src (rctx w) of
        None \<Rightarrow> None
      | Some r1 \<Rightarrow>
          (case dest of
             None \<Rightarrow> Some (w\<lparr>rctx := r1\<rparr>)
           | Some d \<Rightarrow> map_option (\<lambda>r2. w\<lparr>rctx := r2\<rparr>) (cursor_boundaries d r1)))"

text \<open>
  The block and the chunk the cursor of a write points at, when the pointer is set and
  the chunk is one of the block.
\<close>

definition cursor_chunk :: "cc_id \<Rightarrow> RDMAContext \<Rightarrow> (nat \<times> nat) option" where
  "cursor_chunk c r =
     (case cc_block (get_cc c r) of
        None \<Rightarrow> None
      | Some bi \<Rightarrow>
          if length (block (local_ram_blocks r)) \<le> bi then None
          else if length (transit_bitmap (block (local_ram_blocks r) ! bi))
                    \<le> unat (chunk_idx (get_cc c r)) then None
          else Some (bi, unat (chunk_idx (get_cc c r))))"

text \<open>
  The loop of \<^verbatim>\<open>qemu_rdma_write\<close> that waits until no write of the chunk is in flight:
  \<^verbatim>\<open>
  while (test_bit(src->chunk_idx, src->block->transit_bitmap)) {
      ret = qemu_rdma_block_for_wrid(rdma, lc, RDMA_WRID_RDMA_WRITE_REMOTE, NULL);
      if (ret < 0) { return ret; }
  }
  \<close>
\<close>

function wait_transit :: "cc_id \<Rightarrow> lc_id \<Rightarrow> rdma_world \<Rightarrow> (int \<times> rdma_world) option" where
  "wait_transit src lc w =
     (case cursor_chunk src (rctx w) of
        None \<Rightarrow> None
      | Some (bi, ci) \<Rightarrow>
          if transit_bitmap (block (local_ram_blocks (rctx w)) ! bi) ! ci
          then
            (case qemu_rdma_block_for_wrid lc RDMA_WRID_RDMA_WRITE_REMOTE w of
               None \<Rightarrow> None
             | Some (ret, byte_len, w1) \<Rightarrow>
                 if ret < 0 then Some (ret, w1) else wait_transit src lc w1)
          else Some (0, w))"
  by pat_completeness auto

termination wait_transit
  by (relation "measure (\<lambda>(src, lc, w). length (answers w))")
    (auto dest!: qemu_rdma_block_for_wrid_answers)

declare wait_transit.simps [simp del]

text \<open>
  The part of \<^verbatim>\<open>qemu_rdma_write\<close> that registers the chunk, for a chunk that has no
  remote key yet; the result \<open>Some ret\<close> is a \<^verbatim>\<open>return ret\<close>, \<open>None\<close> goes on:
  \<^verbatim>\<open>
  if (src->block->is_ram_block &&
         can_use_buffer_find_nonzero_offset(src->addr, src->current_length)
         && buffer_find_nonzero_offset(src->addr, src->current_length)
                == src->current_length) {
      head.len = sizeof(comp);
      head.type = RDMA_CONTROL_COMPRESS;
      ret = qemu_rdma_exchange_send(rdma, &head, (uint8_t *) &comp, NULL, NULL, NULL);
      if (ret < 0) { return -EIO; }
      acct_update_position(f, src->current_length, true);
      return 1;
  }
  if (!dest) {
      ret = qemu_rdma_exchange_send(rdma, &head, (uint8_t *) &reg, &resp,
                                    &reg_result_idx, NULL);
      if (ret < 0) { return ret; }
  }
  if (qemu_rdma_register_and_get_keys(rdma, src, lc, copy, &sge.lkey, NULL)) {
      return -EINVAL;
  }
  if (!dest) {
      reg_result = (RDMARegisterResult *) rdma->wr_data[reg_result_idx].control_curr;
      network_to_result(reg_result);
      src->block->remote_keys[src->chunk_idx] = reg_result->rkey;
      src->block->remote_host_addr = reg_result->host_addr;
  }
  \<close>
\<close>

definition write_zero_chunk :: "cc_id \<Rightarrow> nat \<Rightarrow> rdma_world \<Rightarrow> (bool \<times> rdma_world) option" where
  "write_zero_chunk src bi w =
     (if is_ram_block (block (local_ram_blocks (rctx w)) ! bi) then ask_flag w
      else Some (False, w))"

definition write_compress :: "cc_id \<Rightarrow> rdma_world \<Rightarrow> (int \<times> rdma_world) option" where
  "write_compress src w =
     (case qemu_rdma_exchange_send RDMA_CONTROL_COMPRESS sizeof_RDMACompress None w of
        None \<Rightarrow> None
      | Some (ret, w1) \<Rightarrow>
          if ret < 0 then Some (- EIO, w1)
          else Some (1, w1\<lparr>events := events w1
                              @ [Ev_acct_update_position
                                   (current_length (get_cc src (rctx w1))) True]\<rparr>))"

definition write_register_request :: "cc_id option \<Rightarrow> rdma_world \<Rightarrow> (int \<times> rdma_world) option" where
  "write_register_request dest w =
     (if dest = None
      then qemu_rdma_exchange_send RDMA_CONTROL_REGISTER_REQUEST sizeof_RDMARegister
             (Some RDMA_CONTROL_REGISTER_RESULT) w
      else Some (0, w))"

definition write_register_result ::
  "cc_id \<Rightarrow> cc_id option \<Rightarrow> nat \<Rightarrow> nat \<Rightarrow> rdma_world \<Rightarrow> rdma_world option" where
  "write_register_result src dest bi ci w =
     (if dest = None
      then
        (case ask_reg_result w of
           None \<Rightarrow> None
         | Some ((rkey, host_addr), w1) \<Rightarrow>
             (let bs = block (local_ram_blocks (rctx w1))
              in if length bs \<le> bi \<or> length (remote_keys (bs ! bi)) \<le> ci then None
                 else
                   Some (w1\<lparr>rctx :=
                              set_block bi
                                ((bs ! bi)\<lparr>remote_keys := (remote_keys (bs ! bi))[ci := rkey],
                                          remote_host_addr := host_addr\<rparr>)
                                (rctx w1)\<rparr>)))
      else Some w)"

definition write_register_new ::
  "cc_id \<Rightarrow> cc_id option \<Rightarrow> bool \<Rightarrow> nat \<Rightarrow> nat \<Rightarrow> rdma_world
   \<Rightarrow> (int option \<times> rdma_world) option" where
  "write_register_new src dest copy bi ci w =
     (case write_zero_chunk src bi w of
        None \<Rightarrow> None
      | Some (zero, w1) \<Rightarrow>
          if zero then map_option (\<lambda>(ret, w2). (Some ret, w2)) (write_compress src w1)
          else
            (case write_register_request dest w1 of
               None \<Rightarrow> None
             | Some (ret, w2) \<Rightarrow>
                 if ret < 0 then Some (Some ret, w2)
                 else
                   (case qemu_rdma_register_and_get_keys src copy w2 of
                      None \<Rightarrow> None
                    | Some (ret2, w3) \<Rightarrow>
                        if ret2 \<noteq> 0 then Some (Some (- EINVAL), w3)
                        else map_option (Pair None)
                               (write_register_result src dest bi ci w3))))"

text \<open>
  The registration in \<^verbatim>\<open>qemu_rdma_write\<close>, from the end of the loop to the making of
  the work request; the result \<open>Some ret\<close> is a \<^verbatim>\<open>return ret\<close>, \<open>None\<close> goes on:
  \<^verbatim>\<open>
  if (!rdma->pin_all || !src->block->is_ram_block) {
      if (!src->block->remote_keys[src->chunk_idx]) {
          ...
      } else {
          if (qemu_rdma_register_and_get_keys(rdma, src, lc, copy, &sge.lkey, NULL)) {
              return -EINVAL;
          }
      }
      send_wr.wr.rdma.rkey = src->block->remote_keys[src->chunk_idx];
  } else {
      send_wr.wr.rdma.rkey = src->block->remote_rkey;
      if (qemu_rdma_register_and_get_keys(rdma, src, lc, copy, &sge.lkey, NULL)) {
          return -EINVAL;
      }
  }
  if (dest) {
      if (qemu_rdma_register_and_get_keys(rdma, dest, &rdma->lc_dest, copy,
                                          NULL, &send_wr.wr.rdma.rkey)) {
          return -EINVAL;
      }
  }
  \<close>
\<close>

definition write_register_known ::
  "cc_id \<Rightarrow> bool \<Rightarrow> rdma_world \<Rightarrow> (int option \<times> rdma_world) option" where
  "write_register_known c copy w =
     (case qemu_rdma_register_and_get_keys c copy w of
        None \<Rightarrow> None
      | Some (ret, w1) \<Rightarrow> if ret \<noteq> 0 then Some (Some (- EINVAL), w1) else Some (None, w1))"

definition write_register_src ::
  "cc_id \<Rightarrow> cc_id option \<Rightarrow> bool \<Rightarrow> rdma_world \<Rightarrow> (int option \<times> rdma_world) option" where
  "write_register_src src dest copy w =
     (case cursor_chunk src (rctx w) of
        None \<Rightarrow> None
      | Some (bi, ci) \<Rightarrow>
          (let b = block (local_ram_blocks (rctx w)) ! bi
           in if \<not> pin_all (rctx w) \<or> \<not> is_ram_block b
              then
                if length (remote_keys b) \<le> ci then None
                else if remote_keys b ! ci = 0
                then write_register_new src dest copy bi ci w
                else write_register_known src copy w
              else write_register_known src copy w))"

definition write_register ::
  "cc_id \<Rightarrow> cc_id option \<Rightarrow> bool \<Rightarrow> rdma_world \<Rightarrow> (int option \<times> rdma_world) option" where
  "write_register src dest copy w =
     (case write_register_src src dest copy w of
        None \<Rightarrow> None
      | Some (Some ret, w1) \<Rightarrow> Some (Some ret, w1)
      | Some (None, w1) \<Rightarrow>
          (case dest of
             None \<Rightarrow> Some (None, w1)
           | Some d \<Rightarrow> write_register_known d copy w1))"

text \<open>
  The work request \<^verbatim>\<open>qemu_rdma_write\<close> makes:
  \<^verbatim>\<open>
  send_wr.wr_id = qemu_rdma_make_wrid(RDMA_WRID_RDMA_WRITE_REMOTE,
                                      src->current_block_idx, src->chunk_idx);
  sge.length = src->current_length;
  sge.addr = (uint64_t) src->addr;
  send_wr.wr.rdma.remote_addr = (dest ? (uint64_t) dest->addr :
              (src->block->remote_host_addr + (src->current_addr - src->block->offset)));
  \<close>
\<close>

definition write_send_wr :: "cc_id \<Rightarrow> cc_id option \<Rightarrow> nat \<Rightarrow> RDMAContext \<Rightarrow> ibv_send_wr" where
  "write_send_wr src dest bi r =
     (let cc = get_cc src r;
          b = block (local_ram_blocks r) ! bi
      in \<lparr>wr_id = qemu_rdma_make_wrid (word_of_int RDMA_WRID_RDMA_WRITE_REMOTE)
                    (word_of_int (current_block_idx cc)) (chunk_idx cc),
          sge_addr = addr cc,
          sge_length = ucast (current_length cc),
          remote_addr = (case dest of
                           Some d \<Rightarrow> addr (get_cc d r)
                         | None \<Rightarrow> remote_host_addr b + (current_addr cc - offset b))\<rparr>)"

text \<open>
  The end of \<^verbatim>\<open>qemu_rdma_write\<close>, once \<^verbatim>\<open>ibv_post_send\<close> has returned 0:
  \<^verbatim>\<open>
  set_bit(src->chunk_idx, src->block->transit_bitmap);
  if (!dest) { acct_update_position(f, sge.length, false); }
  rdma->total_writes++;
  rdma->nb_sent++;
  lc->nb_sent++;
  src->current_length = 0;
  src->current_addr = 0;
  if (dest) {
      dest->current_length = 0;
      dest->current_addr = 0;
  }
  return 0;
  \<close>
\<close>

definition set_transit :: "nat \<Rightarrow> nat \<Rightarrow> RDMAContext \<Rightarrow> RDMAContext" where
  "set_transit bi ci r =
     (let bs = block (local_ram_blocks r);
          b = bs ! bi
      in r\<lparr>local_ram_blocks :=
             (local_ram_blocks r)
               \<lparr>block := bs[bi := b\<lparr>transit_bitmap := (transit_bitmap b)[ci := True]\<rparr>]\<rparr>\<rparr>)"

definition cursor_reset :: "cc_id \<Rightarrow> RDMAContext \<Rightarrow> RDMAContext" where
  "cursor_reset c r = set_cc c ((get_cc c r)\<lparr>current_length := 0, current_addr := 0\<rparr>) r"

definition write_posted ::
  "cc_id \<Rightarrow> cc_id option \<Rightarrow> lc_id \<Rightarrow> nat \<Rightarrow> nat \<Rightarrow> ibv_send_wr \<Rightarrow> rdma_world
   \<Rightarrow> (int \<times> rdma_world) option" where
  "write_posted src dest lc bi ci wr w =
     (let r = rctx w
      in case (int_incr (total_writes r), int_incr (nb_sent r),
               int_incr (lc_nb_sent (get_lc lc r))) of
           (Some tw, Some ns, Some ls) \<Rightarrow>
             (let r1 = (set_transit bi ci r)\<lparr>total_writes := tw, nb_sent := ns\<rparr>;
                  r2 = set_lc lc ((get_lc lc r1)\<lparr>lc_nb_sent := ls\<rparr>) r1;
                  r3 = cursor_reset src r2;
                  r4 = (case dest of None \<Rightarrow> r3 | Some d \<Rightarrow> cursor_reset d r3);
                  ev = (if dest = None
                        then [Ev_acct_update_position (ucast (sge_length wr)) False] else [])
              in Some (0, w\<lparr>rctx := r4,
                            inflight := inflight w @ [(lc, wr)],
                            events := events w @ ev\<rparr>))
         | _ \<Rightarrow> None)"

text \<open>
  \<^verbatim>\<open>qemu_rdma_write\<close> from the label \<^verbatim>\<open>retry\<close> on. \<^verbatim>\<open>ibv_post_send\<close> returns 0 or a
  positive error number (the source: ``ibv_post_send() does not return negative error
  numbers, per the specification they are positive''); a negative answer is outside the
  model.
  \<^verbatim>\<open>
  ret = ibv_post_send(lc->qp, &send_wr, &bad_wr);
  if (ret == ENOMEM) {
      ret = qemu_rdma_block_for_wrid(rdma, lc, RDMA_WRID_RDMA_WRITE_REMOTE, NULL);
      if (ret < 0) { return ret; }
      goto retry;
  } else if (ret > 0) {
      return -ret;
  }
  \<close>
\<close>

function qemu_rdma_write_retry ::
  "cc_id \<Rightarrow> cc_id option \<Rightarrow> lc_id \<Rightarrow> bool \<Rightarrow> rdma_world \<Rightarrow> (int \<times> rdma_world) option" where
  "qemu_rdma_write_retry src dest lc copy w =
     (case write_boundaries src dest w of
        None \<Rightarrow> None
      | Some w1 \<Rightarrow>
          (case wait_transit src lc w1 of
             None \<Rightarrow> None
           | Some (ret, w2) \<Rightarrow>
               if ret < 0 then Some (ret, w2)
               else
                 (case write_register src dest copy w2 of
                    None \<Rightarrow> None
                  | Some (Some ret2, w3) \<Rightarrow> Some (ret2, w3)
                  | Some (None, w3) \<Rightarrow>
                      (case cursor_chunk src (rctx w3) of
                         None \<Rightarrow> None
                       | Some (bi, ci) \<Rightarrow>
                           (let wr = write_send_wr src dest bi (rctx w3)
                            in case ask_ret (w3\<lparr>events := events w3 @ [Ev_post_send lc wr]\<rparr>) of
                                 None \<Rightarrow> None
                               | Some (ret3, w4) \<Rightarrow>
                                   if ret3 = ENOMEM
                                   then
                                     (case qemu_rdma_block_for_wrid lc
                                             RDMA_WRID_RDMA_WRITE_REMOTE w4 of
                                        None \<Rightarrow> None
                                      | Some (ret4, byte_len, w5) \<Rightarrow>
                                          if ret4 < 0 then Some (ret4, w5)
                                          else qemu_rdma_write_retry src dest lc copy w5)
                                   else if ret3 > 0 then Some (- ret3, w4)
                                   else if ret3 < 0 then None
                                   else write_posted src dest lc bi ci wr w4)))))"
  by pat_completeness auto

lemma wait_transit_cases:
  assumes "wait_transit src lc w = Some res"
  obtains
    (clear) bi ci where "cursor_chunk src (rctx w) = Some (bi, ci)"
      "\<not> transit_bitmap (block (local_ram_blocks (rctx w)) ! bi) ! ci" "res = (0, w)"
  | (err) bi ci ret bl w1 where "cursor_chunk src (rctx w) = Some (bi, ci)"
      "transit_bitmap (block (local_ram_blocks (rctx w)) ! bi) ! ci"
      "qemu_rdma_block_for_wrid lc RDMA_WRID_RDMA_WRITE_REMOTE w = Some (ret, bl, w1)"
      "ret < 0" "res = (ret, w1)"
  | (again) bi ci ret bl w1 where "cursor_chunk src (rctx w) = Some (bi, ci)"
      "transit_bitmap (block (local_ram_blocks (rctx w)) ! bi) ! ci"
      "qemu_rdma_block_for_wrid lc RDMA_WRID_RDMA_WRITE_REMOTE w = Some (ret, bl, w1)"
      "\<not> ret < 0" "wait_transit src lc w1 = Some res"
  using assms
  by (subst (asm) wait_transit.simps) (auto split: option.splits if_splits)

lemma wait_transit_answers:
  "wait_transit src lc w = Some (ret, w1) \<Longrightarrow> length (answers w1) \<le> length (answers w)"
proof (induction "length (answers w)" arbitrary: w rule: less_induct)
  case less
  from less.prems show ?case
  proof (cases rule: wait_transit_cases)
    case (clear bi ci)
    then show ?thesis by simp
  next
    case (err bi ci r bl w0)
    then show ?thesis using qemu_rdma_block_for_wrid_answers[OF err(3)] by simp
  next
    case (again bi ci r bl w0)
    note lt = qemu_rdma_block_for_wrid_answers[OF again(3)]
    show ?thesis using less.hyps[OF lt again(5)] lt by simp
  qed
qed

lemma qemu_rdma_post_send_control_answers:
  "qemu_rdma_post_send_control t l w = Some (ret, w1)
   \<Longrightarrow> length (answers w1) \<le> length (answers w)"
  by (auto simp: qemu_rdma_post_send_control_def split: option.splits if_splits
      dest!: ask_ret_answers qemu_rdma_block_for_wrid_answers)

lemma qemu_rdma_post_recv_control_answers:
  "qemu_rdma_post_recv_control idx w = Some (ret, w1)
   \<Longrightarrow> length (answers w1) \<le> length (answers w)"
  by (auto simp: qemu_rdma_post_recv_control_def split: option.splits if_splits
      dest!: ask_ret_answers)

lemma qemu_rdma_exchange_get_response_answers:
  "qemu_rdma_exchange_get_response e idx w = Some (ret, w1)
   \<Longrightarrow> length (answers w1) \<le> length (answers w)"
  by (auto simp: qemu_rdma_exchange_get_response_def split: option.splits if_splits
      dest!: ask_head_answers qemu_rdma_block_for_wrid_answers)

lemma exchange_send_ready_answers:
  "exchange_send_ready w = Some (ret, w1) \<Longrightarrow> length (answers w1) \<le> length (answers w)"
  by (auto simp: exchange_send_ready_def split: if_splits
      dest!: qemu_rdma_exchange_get_response_answers)

lemma exchange_send_post_recv_answers:
  "exchange_send_post_recv resp w = Some (ret, w1)
   \<Longrightarrow> length (answers w1) \<le> length (answers w)"
  by (auto simp: exchange_send_post_recv_def split: option.splits if_splits
      dest!: qemu_rdma_post_recv_control_answers)

lemma exchange_send_response_answers:
  "exchange_send_response resp w = Some (ret, w1)
   \<Longrightarrow> length (answers w1) \<le> length (answers w)"
  by (auto simp: exchange_send_response_def split: option.splits
      dest!: qemu_rdma_exchange_get_response_answers)

lemma qemu_rdma_exchange_send_answers:
  "qemu_rdma_exchange_send t l resp w = Some (ret, w1)
   \<Longrightarrow> length (answers w1) \<le> length (answers w)"
  by (auto simp: qemu_rdma_exchange_send_def split: option.splits if_splits
      dest!: exchange_send_ready_answers exchange_send_post_recv_answers
        qemu_rdma_post_send_control_answers exchange_send_response_answers)

lemma qemu_rdma_register_and_get_keys_answers:
  "qemu_rdma_register_and_get_keys c copy w = Some (ret, w1)
   \<Longrightarrow> length (answers w1) \<le> length (answers w)"
  by (auto simp: qemu_rdma_register_and_get_keys_def Let_def
      split: option.splits if_splits dest!: ask_flag_answers)

lemma write_boundaries_answers:
  "write_boundaries src dest w = Some w1 \<Longrightarrow> answers w1 = answers w"
  by (auto simp: write_boundaries_def split: option.splits)

lemma write_register_known_answers:
  "write_register_known c copy w = Some (ret, w1)
   \<Longrightarrow> length (answers w1) \<le> length (answers w)"
  by (auto simp: write_register_known_def split: option.splits if_splits
      dest!: qemu_rdma_register_and_get_keys_answers)

lemma write_register_new_answers:
  "write_register_new src dest copy bi ci w = Some (ret, w1)
   \<Longrightarrow> length (answers w1) \<le> length (answers w)"
  by (auto simp: write_register_new_def write_zero_chunk_def write_compress_def
      write_register_request_def write_register_result_def Let_def
      split: option.splits if_splits
      dest!: ask_flag_answers ask_reg_result_answers qemu_rdma_exchange_send_answers
        qemu_rdma_register_and_get_keys_answers)

lemma write_register_answers:
  "write_register src dest copy w = Some (ret, w1)
   \<Longrightarrow> length (answers w1) \<le> length (answers w)"
  by (auto simp: write_register_def write_register_src_def Let_def
      split: option.splits if_splits
      dest!: write_register_known_answers write_register_new_answers)

termination qemu_rdma_write_retry
  by (relation "measure (\<lambda>(src, dest, lc, copy, w). length (answers w))")
    (auto dest!: write_boundaries_answers wait_transit_answers write_register_answers
       ask_ret_answers qemu_rdma_block_for_wrid_answers)

declare qemu_rdma_write_retry.simps [simp del]

text \<open>
  \<^verbatim>\<open>qemu_rdma_write\<close>:
  \<^verbatim>\<open>
  if (!src->current_length) { return 0; }
  if (dest == src) { dest = NULL; }
  copy = dest ? true : false;
  lc = copy ? (rdma->source ? &rdma->lc_src : &rdma->lc_dest) : &rdma->lc_remote;
  retry:
  ...
  \<close>
\<close>

definition qemu_rdma_write ::
  "cc_id \<Rightarrow> cc_id option \<Rightarrow> rdma_world \<Rightarrow> (int \<times> rdma_world) option" where
  "qemu_rdma_write src dest0 w =
     (if current_length (get_cc src (rctx w)) = 0 then Some (0, w)
      else
        (let dest = (if dest0 = Some src then None else dest0);
             copy = (dest \<noteq> None);
             lc = (if copy then (if source (rctx w) then Lc_src else Lc_dest) else Lc_remote)
         in qemu_rdma_write_retry src dest lc copy w))"

subsection \<open>The cursor of the pages to write\<close>

text \<open>
  \<^verbatim>\<open>qemu_rdma_search_ram_block\<close>, with the results \<^verbatim>\<open>(*block_index, *chunk_index)\<close>;
  undefined when one of its three assertions fails:
  \<^verbatim>\<open>
  uint64_t current_addr = block_offset + offset;
  RDMALocalBlock *block = g_hash_table_lookup(rdma->blockmap, (void *) block_offset);
  assert(block);
  assert(current_addr >= block->offset);
  assert((current_addr + length) <= (block->offset + block->length));
  *block_index = block->index;
  *chunk_index = ram_chunk_index(block->local_host_addr,
              block->local_host_addr + (current_addr - block->offset));
  return 0;
  \<close>
\<close>

definition qemu_rdma_search_ram_block ::
  "RDMAContext \<Rightarrow> u64 \<Rightarrow> u64 \<Rightarrow> u64 \<Rightarrow> (u64 \<times> u64) option" where
  "qemu_rdma_search_ram_block r block_off off len =
     (let cur = block_off + off
      in case blockmap r of
           None \<Rightarrow> None
         | Some bm \<Rightarrow>
             (case bm block_off of
                None \<Rightarrow> None
              | Some bi \<Rightarrow>
                  if length (block (local_ram_blocks r)) \<le> bi then None
                  else
                    (let b = block (local_ram_blocks r) ! bi
                     in if cur < offset b \<or> offset b + length_b b < cur + len then None
                        else Some (word_of_int (index b),
                                   ram_chunk_index (local_host_addr b)
                                     (local_host_addr b + (cur - offset b))))))"

text \<open>
  \<^verbatim>\<open>write_start\<close>; the two \<^verbatim>\<open>uint64_t\<close> results of the search are stored into the
  \<^verbatim>\<open>int\<close> fields of the cursor:
  \<^verbatim>\<open>
  cc->current_addr = current_addr;
  block_idx = cc->current_block_idx;
  chunk = cc->current_chunk;
  ret = qemu_rdma_search_ram_block(rdma, cc->block_offset, cc->offset, len,
                                   &block_idx, &chunk);
  if (ret) { return ret; }
  cc->current_block_idx = block_idx;
  cc->current_chunk = chunk;
  return 0;
  \<close>
\<close>

definition write_start :: "cc_id \<Rightarrow> u64 \<Rightarrow> u64 \<Rightarrow> RDMAContext \<Rightarrow> (int \<times> RDMAContext) option" where
  "write_start c len cur r =
     (let cc = (get_cc c r)\<lparr>current_addr := cur\<rparr>
      in case qemu_rdma_search_ram_block r (block_offset cc) (cc_offset cc) len of
           None \<Rightarrow> None
         | Some (block_idx, chunk) \<Rightarrow>
             Some (0, set_cc c (cc\<lparr>current_block_idx := sint (ucast block_idx :: 32 word),
                                   current_chunk := sint (ucast chunk :: 32 word)\<rparr>) r))"

text \<open>
  \<^verbatim>\<open>qemu_rdma_buffer_mergable\<close>; undefined when \<^verbatim>\<open>current_block_idx\<close> is not an index
  of the array the function reads the block from:
  \<^verbatim>\<open>
  if (cc->current_block_idx < 0) { return 0; }
  if (cc->current_chunk < 0) { return 0; }
  block = &(rdma->local_ram_blocks.block[cc->current_block_idx]);
  host_addr = block->local_host_addr + (current_addr - block->offset);
  chunk_end = ram_chunk_end(block, cc->current_chunk);
  if (cc->current_length == 0) { return 0; }
  if (current_addr != (cc->current_addr + cc->current_length)) { return 0; }
  if (current_addr < block->offset) { return 0; }
  if ((current_addr + len) > (block->offset + block->length)) { return 0; }
  if ((host_addr + len) > chunk_end) { return 0; }
  return 1;
  \<close>
\<close>

definition qemu_rdma_buffer_mergable ::
  "RDMAContext \<Rightarrow> cc_id \<Rightarrow> u64 \<Rightarrow> u64 \<Rightarrow> int option" where
  "qemu_rdma_buffer_mergable r c cur len =
     (let cc = get_cc c r
      in if current_block_idx cc < 0 then Some 0
         else if current_chunk cc < 0 then Some 0
         else if int (length (block (local_ram_blocks r))) \<le> current_block_idx cc then None
         else
           (let b = block (local_ram_blocks r) ! nat (current_block_idx cc);
                host_addr = local_host_addr b + (cur - offset b);
                chunk_end_b = ram_chunk_end b (word_of_int (current_chunk cc))
            in if current_length cc = 0 then Some 0
               else if cur \<noteq> current_addr cc + current_length cc then Some 0
               else if cur < offset b then Some 0
               else if offset b + length_b b < cur + len then Some 0
               else if chunk_end_b < host_addr + len then Some 0
               else Some 1))"

text \<open>
  \<^verbatim>\<open>qemu_rdma_flush_unmergable\<close>:
  \<^verbatim>\<open>
  current_addr_src = src->block_offset + src->offset;
  if (dest) { current_addr_dest = dest->block_offset + dest->offset; }
  if (qemu_rdma_buffer_mergable(rdma, src, current_addr_src, len)) {
      if (dest) {
          if (qemu_rdma_buffer_mergable(rdma, dest, current_addr_dest, len)) { goto merge; }
      } else {
          goto merge;
      }
  }
  ret = qemu_rdma_write(f, rdma, src, dest);
  if (ret) { return ret; }
  ret = write_start(rdma, src, len, current_addr_src);
  if (ret) { return ret; }
  if (dest) {
      ret = write_start(rdma, dest, len, current_addr_dest);
      if (ret) { return ret; }
  }
  merge:
  src->current_length += len;
  if (dest) { dest->current_length += len; }
  return 0;
  \<close>
\<close>

definition cursor_addr :: "cc_id \<Rightarrow> RDMAContext \<Rightarrow> u64" where
  "cursor_addr c r = block_offset (get_cc c r) + cc_offset (get_cc c r)"

definition cursor_merge :: "cc_id \<Rightarrow> u64 \<Rightarrow> RDMAContext \<Rightarrow> RDMAContext" where
  "cursor_merge c len r =
     set_cc c ((get_cc c r)\<lparr>current_length := current_length (get_cc c r) + len\<rparr>) r"

definition flush_merge :: "cc_id \<Rightarrow> cc_id option \<Rightarrow> u64 \<Rightarrow> RDMAContext \<Rightarrow> RDMAContext" where
  "flush_merge src dest len r =
     (case dest of
        None \<Rightarrow> cursor_merge src len r
      | Some d \<Rightarrow> cursor_merge d len (cursor_merge src len r))"

definition flush_mergable :: "cc_id \<Rightarrow> cc_id option \<Rightarrow> u64 \<Rightarrow> RDMAContext \<Rightarrow> bool option" where
  "flush_mergable src dest len r =
     (case qemu_rdma_buffer_mergable r src (cursor_addr src r) len of
        None \<Rightarrow> None
      | Some m \<Rightarrow>
          if m = 0 then Some False
          else
            (case dest of
               None \<Rightarrow> Some True
             | Some d \<Rightarrow>
                 map_option (\<lambda>m2. m2 \<noteq> 0)
                   (qemu_rdma_buffer_mergable r d (cursor_addr d r) len)))"

definition flush_write_start ::
  "cc_id \<Rightarrow> cc_id option \<Rightarrow> u64 \<Rightarrow> u64 \<Rightarrow> u64 \<Rightarrow> RDMAContext \<Rightarrow> (int \<times> RDMAContext) option" where
  "flush_write_start src dest len cur_src cur_dest r =
     (case write_start src len cur_src r of
        None \<Rightarrow> None
      | Some (ret, r1) \<Rightarrow>
          if ret \<noteq> 0 then Some (ret, r1)
          else
            (case dest of
               None \<Rightarrow> Some (0, r1)
             | Some d \<Rightarrow> write_start d len cur_dest r1))"

definition qemu_rdma_flush_unmergable ::
  "cc_id \<Rightarrow> cc_id option \<Rightarrow> u64 \<Rightarrow> rdma_world \<Rightarrow> (int \<times> rdma_world) option" where
  "qemu_rdma_flush_unmergable src dest len w =
     (let cur_src = cursor_addr src (rctx w);
          cur_dest = (case dest of None \<Rightarrow> 0 | Some d \<Rightarrow> cursor_addr d (rctx w))
      in case flush_mergable src dest len (rctx w) of
           None \<Rightarrow> None
         | Some True \<Rightarrow> Some (0, w\<lparr>rctx := flush_merge src dest len (rctx w)\<rparr>)
         | Some False \<Rightarrow>
             (case qemu_rdma_write src dest w of
                None \<Rightarrow> None
              | Some (ret, w1) \<Rightarrow>
                  if ret \<noteq> 0 then Some (ret, w1)
                  else
                    (case flush_write_start src dest len cur_src cur_dest (rctx w1) of
                       None \<Rightarrow> None
                     | Some (ret2, r2) \<Rightarrow>
                         if ret2 \<noteq> 0 then Some (ret2, w1\<lparr>rctx := r2\<rparr>)
                         else Some (0, w1\<lparr>rctx := flush_merge src dest len r2\<rparr>))))"

subsection \<open>Properties of the registry of blocks\<close>

text \<open>Private areas registered one after the other with \<open>qemu_rdma_add_block\<close>.\<close>

fun add_blocks :: "RDMAContext \<Rightarrow> (u64 \<times> u64 \<times> u64) list \<Rightarrow> RDMAContext option" where
  "add_blocks ctx [] = Some ctx"
| "add_blocks ctx ((host_addr, block_off, len) # rbs) =
     (case qemu_rdma_add_block ctx host_addr block_off len of
        None \<Rightarrow> None
      | Some (ret, rdma1) \<Rightarrow> add_blocks rdma1 rbs)"

lemma uu_qemu_rdma_add_block_flag:
  assumes "uu_qemu_rdma_add_block ctx h off len = Some (ret, rdma1)"
  shows "ret = 0
       \<and> init (local_ram_blocks rdma1) = init (local_ram_blocks ctx)
       \<and> blockmap rdma1 \<noteq> None
       \<and> map is_ram_block (block (local_ram_blocks rdma1))
           = map is_ram_block (block (local_ram_blocks ctx)) @ [\<not> init (local_ram_blocks ctx)]"
  using assms
  by (auto simp: uu_qemu_rdma_add_block_def Let_def split: option.splits if_splits)

lemma qemu_ram_foreach_block_flags:
  "qemu_ram_foreach_block ctx rbs = Some rdma1
   \<Longrightarrow> init (local_ram_blocks rdma1) = init (local_ram_blocks ctx)
     \<and> map is_ram_block (block (local_ram_blocks rdma1))
         = map is_ram_block (block (local_ram_blocks ctx))
           @ replicate (length rbs) (\<not> init (local_ram_blocks ctx))"
proof (induction rbs arbitrary: ctx)
  case Nil
  then show ?case by simp
next
  case (Cons rb rbs)
  obtain h off len where rb: "rb = (h, off, len)" by (cases rb)
  from Cons.prems obtain ret rdma0 where
    a: "uu_qemu_rdma_add_block ctx h off len = Some (ret, rdma0)"
    and r: "qemu_ram_foreach_block rdma0 rbs = Some rdma1"
    by (auto simp: rb split: option.splits)
  show ?case
    using Cons.IH[OF r] uu_qemu_rdma_add_block_flag[OF a]
    by (simp add: replicate_append_same)
qed

lemma add_blocks_flags:
  "add_blocks ctx rbs = Some rdma1
   \<Longrightarrow> init (local_ram_blocks rdma1) = init (local_ram_blocks ctx)
     \<and> map is_ram_block (block (local_ram_blocks rdma1))
         = map is_ram_block (block (local_ram_blocks ctx))
           @ replicate (length rbs) (\<not> init (local_ram_blocks ctx))"
proof (induction rbs arbitrary: ctx)
  case Nil
  then show ?case by simp
next
  case (Cons rb rbs)
  obtain h off len where rb: "rb = (h, off, len)" by (cases rb)
  from Cons.prems obtain ret rdma0 where
    a: "uu_qemu_rdma_add_block ctx h off len = Some (ret, rdma0)"
    and r: "add_blocks rdma0 rbs = Some rdma1"
    by (auto simp: rb qemu_rdma_add_block_def split: option.splits)
  show ?case
    using Cons.IH[OF r] uu_qemu_rdma_add_block_flag[OF a]
    by (simp add: replicate_append_same)
qed

text \<open>
  C8. The flag \<open>is_ram_block\<close> tells the blocks \<open>qemu_rdma_init_ram_blocks\<close> has
  registered from the blocks registered after it: it is true for every RAM block of the
  hypervisor, the first, the second and the later ones, since \<open>init\<close> is set after the
  whole enumeration, and false for every block added afterwards with
  \<open>qemu_rdma_add_block\<close>.
\<close>

theorem is_ram_block_of_registered_blocks:
  assumes "qemu_rdma_init_ram_blocks ctx rbs = Some (ret, rdma1)"
    and "add_blocks rdma1 privs = Some rdma2"
  shows "map is_ram_block (block (local_ram_blocks rdma1)) = replicate (length rbs) True
       \<and> map is_ram_block (block (local_ram_blocks rdma2))
           = replicate (length rbs) True @ replicate (length privs) False"
proof -
  from assms(1) obtain rdma0 where
    f: "qemu_ram_foreach_block
          (ctx\<lparr>blockmap := Some Map.empty,
                local_ram_blocks := \<lparr>nb_blocks = 0, init = False, block = []\<rparr>\<rparr>) rbs
        = Some rdma0"
    and r1: "rdma1 = rdma0\<lparr>local_ram_blocks := (local_ram_blocks rdma0)\<lparr>init := True\<rparr>\<rparr>"
    by (auto simp: qemu_rdma_init_ram_blocks_def split: option.splits if_splits)
  have a: "map is_ram_block (block (local_ram_blocks rdma1)) = replicate (length rbs) True"
    and i: "init (local_ram_blocks rdma1)"
    using qemu_ram_foreach_block_flags[OF f] by (simp_all add: r1)
  show ?thesis
    using a i add_blocks_flags[OF assms(2)] by simp
qed

text \<open>Two RAM blocks of 3 MiB and 1 MiB, and a private area of 5 MiB.\<close>

definition two_ram_blocks :: "(u64 \<times> u64 \<times> u64) list" where
  "two_ram_blocks = [(0x10000000, 0, 0x300000), (0x20000000, 0x300000, 0x100000)]"

definition one_private_block :: "(u64 \<times> u64 \<times> u64) list" where
  "one_private_block = [(0x30000000, 0x30000000, 0x500000)]"

lemma example_registry:
  "\<exists>rdma1 rdma2.
     qemu_rdma_init_ram_blocks qemu_rdma_data_init two_ram_blocks = Some (0, rdma1)
     \<and> add_blocks rdma1 one_private_block = Some rdma2"
  by (simp add: qemu_rdma_init_ram_blocks_def qemu_rdma_data_init_def two_ram_blocks_def
      one_private_block_def uu_qemu_rdma_add_block_def qemu_rdma_add_block_def
      ram_chunk_index_def RDMA_REG_CHUNK_SHIFT_def reinsert_blocks_def INT_MAX_def Let_def
      upt_conv_Cons nth_Cons')

text \<open>The two RAM blocks and then the private area: the flags are true, true, false.\<close>

theorem is_ram_block_of_registered_blocks_witness:
  "\<exists>rdma1 rdma2.
     qemu_rdma_init_ram_blocks qemu_rdma_data_init two_ram_blocks = Some (0, rdma1)
     \<and> add_blocks rdma1 one_private_block = Some rdma2
     \<and> map is_ram_block (block (local_ram_blocks rdma2)) = [True, True, False]"
proof -
  obtain rdma1 rdma2 where
    a: "qemu_rdma_init_ram_blocks qemu_rdma_data_init two_ram_blocks = Some (0, rdma1)"
    and b: "add_blocks rdma1 one_private_block = Some rdma2"
    using example_registry by blast
  have c: "map is_ram_block (block (local_ram_blocks rdma2)) = [True, True, False]"
    using is_ram_block_of_registered_blocks[OF a b]
    by (simp add: two_ram_blocks_def one_private_block_def)
  show ?thesis
    by (rule exI[of _ rdma1], rule exI[of _ rdma2]) (simp add: a b c)
qed

text \<open>
  The second block registered is the second RAM block of the hypervisor, and its flag is
  true.
\<close>

theorem is_ram_block_second_block_counterexample:
  "map_option (\<lambda>(ret, rdma1). map is_ram_block (block (local_ram_blocks rdma1)))
     (qemu_rdma_init_ram_blocks qemu_rdma_data_init two_ram_blocks) = Some [True, True]"
  by (simp add: qemu_rdma_init_ram_blocks_def qemu_rdma_data_init_def two_ram_blocks_def
      uu_qemu_rdma_add_block_def ram_chunk_index_def RDMA_REG_CHUNK_SHIFT_def
      reinsert_blocks_def INT_MAX_def Let_def upt_conv_Cons nth_Cons')

subsection \<open>Properties of the write engine\<close>

text \<open>A state in which nothing is in flight and nothing has been handed over.\<close>

definition world_of :: "RDMAContext \<Rightarrow> hw_answer list \<Rightarrow> rdma_world" where
  "world_of r as = \<lparr>rctx = r, inflight = [], events = [], answers = as\<rparr>"

text \<open>
  Two pages of the first of two RAM blocks. \<open>qemu_rdma_save_page\<close> sets \<open>block_offset\<close> and
  \<open>offset\<close> of the cursor \<open>chunk_remote\<close> and calls \<open>qemu_rdma_flush_unmergable\<close>; the
  first page has 2 MiB at the offset 0, the second 4096 bytes at the offset 1 MiB. Each is
  written with \<open>qemu_rdma_write\<close>; the adapter completes none of the two writes. The
  answers are those of a run in which the destination registers each chunk.
\<close>

definition answers_first_write :: "hw_answer list" where
  "answers_first_write =
     [Flag False, Ret 0, Ret 0, Ret 0, Ret 0, Poll_cq_wc 2000 True 0, Ret 0,
      Poll_cq_wc 4001 True 32, Head 8 16, Flag True, Reg_result 0x1234 0x7F0000000000, Ret 0]"

definition answers_second_write :: "hw_answer list" where
  "answers_second_write =
     [Flag False, Ret 0, Poll_cq_wc 4000 True 16, Head 2 0, Ret 0, Ret 0, Ret 0, Ret 0,
      Poll_cq_wc 2000 True 0, Ret 0, Poll_cq_wc 4001 True 32, Head 8 16, Flag True,
      Reg_result 0x1235 0x7F0000000000, Ret 0]"

definition save_page_cursor :: "u64 \<Rightarrow> u64 \<Rightarrow> rdma_world \<Rightarrow> rdma_world" where
  "save_page_cursor block_off off w =
     w\<lparr>rctx := (rctx w)\<lparr>chunk_remote :=
                          (chunk_remote (rctx w))\<lparr>block_offset := block_off,
                                                  cc_offset := off\<rparr>\<rparr>\<rparr>"

definition example_first_write :: "rdma_world option" where
  "example_first_write =
     Option.bind (qemu_rdma_init_ram_blocks qemu_rdma_data_init two_ram_blocks) (\<lambda>(ret, r).
     Option.bind (qemu_rdma_flush_unmergable Chunk_remote None 0x200000
                    (save_page_cursor 0 0
                       (world_of r (answers_first_write @ answers_second_write)))) (\<lambda>(ret1, w1).
     map_option snd (qemu_rdma_write Chunk_remote None w1)))"

definition example_second_write :: "rdma_world option" where
  "example_second_write =
     Option.bind example_first_write (\<lambda>w2.
     Option.bind (qemu_rdma_flush_unmergable Chunk_remote None 0x1000
                    (save_page_cursor 0 0x100000 w2)) (\<lambda>(ret3, w3).
     map_option snd (qemu_rdma_write Chunk_remote None w3)))"

lemma replicate_pos: "0 < n \<Longrightarrow> replicate n x = x # replicate (n - 1) x"
  by (cases n) simp_all

lemmas rdma_engine_defs =
  qemu_rdma_init_ram_blocks_def qemu_rdma_data_init_def cursor_init_def two_ram_blocks_def
  uu_qemu_rdma_add_block_def ram_chunk_index_def ram_chunk_start_def ram_chunk_end_def
  RDMA_REG_CHUNK_SHIFT_def reinsert_blocks_def INT_MAX_def EINVAL_def EIO_def ENOMEM_def
  world_of_def save_page_cursor_def answers_first_write_def answers_second_write_def
  qemu_rdma_flush_unmergable_def flush_mergable_def flush_merge_def flush_write_start_def
  cursor_merge_def cursor_addr_def qemu_rdma_buffer_mergable_def write_start_def
  qemu_rdma_search_ram_block_def qemu_rdma_write_def qemu_rdma_write_retry.simps
  write_boundaries_def cursor_boundaries_def install_boundaries_def cursor_chunk_def
  wait_transit.simps write_register_def write_register_src_def write_register_new_def
  write_register_known_def write_zero_chunk_def write_compress_def
  write_register_request_def write_register_result_def qemu_rdma_register_and_get_keys_def
  set_block_def int_incr_def write_send_wr_def write_posted_def set_transit_def
  cursor_reset_def qemu_rdma_exchange_send_def exchange_send_ready_def
  exchange_send_post_recv_def exchange_send_response_def
  qemu_rdma_exchange_get_response_def qemu_rdma_post_recv_control_def
  qemu_rdma_post_send_control_def qemu_rdma_block_for_wrid_def poll_loop.simps
  cq_event_loop.simps qemu_rdma_poll_def poll_completed_def poll_write_completed_def
  clear_transit_def hw_complete_def ask_ret_def ask_flag_def ask_head_def ask_reg_result_def
  qemu_rdma_make_wrid_def RDMA_WRID_TYPE_MASK_def RDMA_WRID_BLOCK_MASK_def
  RDMA_WRID_CHUNK_MASK_def RDMA_WRID_BLOCK_SHIFT_def RDMA_WRID_CHUNK_SHIFT_def
  RDMA_WRID_NONE_def RDMA_WRID_RDMA_WRITE_REMOTE_def RDMA_WRID_SEND_CONTROL_def
  RDMA_WRID_RECV_CONTROL_def RDMA_WRID_READY_def RDMA_WRID_DATA_def
  RDMA_CONTROL_NONE_def RDMA_CONTROL_ERROR_def RDMA_CONTROL_READY_def
  RDMA_CONTROL_COMPRESS_def RDMA_CONTROL_REGISTER_REQUEST_def
  RDMA_CONTROL_REGISTER_RESULT_def RDMA_CONTROL_MAX_BUFFER_def
  sizeof_RDMAControlHeader_def sizeof_RDMARegister_def sizeof_RDMACompress_def
  Let_def upt_conv_Cons nth_Cons' replicate_pos

lemma example_first_write_state:
  "map_option (\<lambda>w. (map transit_bitmap (block (local_ram_blocks (rctx w))),
                      nb_sent (rctx w), lc_nb_sent (lc_remote (rctx w)), inflight w,
                      answers w, current_length (chunk_remote (rctx w)))) example_first_write
   = Some ([[True, False, False, False], [False, False]], 1, 1,
           [(Lc_remote, \<lparr>wr_id = 1, sge_addr = 0x10000000, sge_length = 0x200000,
                          remote_addr = 0x7F0000000000\<rparr>)],
           answers_second_write, 0)"
  by (simp add: example_first_write_def rdma_engine_defs)

text \<open>
  C9. \<open>qemu_rdma_write\<close> on a cursor whose \<open>current_length\<close> is zero returns 0 and leaves
  the whole state as it is: the context with its bitmaps, counters and cursors, the writes
  in flight, what has been handed to the verbs library (no work request is posted), and
  the answers, none of which is asked for.
\<close>

theorem qemu_rdma_write_empty_cursor:
  assumes "current_length (get_cc src (rctx w)) = 0"
  shows "qemu_rdma_write src dest w = Some (0, w)"
  using assms by (simp add: qemu_rdma_write_def)

text \<open>
  After the first write of the example, one write is in flight and the cursor is empty
  again: a second call returns 0 and changes nothing.
\<close>

theorem qemu_rdma_write_empty_cursor_witness:
  "\<exists>w. example_first_write = Some w
       \<and> nb_sent (rctx w) = 1
       \<and> length (inflight w) = 1
       \<and> current_length (get_cc Chunk_remote (rctx w)) = 0
       \<and> qemu_rdma_write Chunk_remote None w = Some (0, w)"
proof -
  obtain w where w: "example_first_write = Some w"
    using example_first_write_state by (cases example_first_write) simp_all
  have s: "nb_sent (rctx w) = 1" "length (inflight w) = 1"
    "current_length (get_cc Chunk_remote (rctx w)) = 0"
    using example_first_write_state by (simp_all add: w)
  show ?thesis
    using w s qemu_rdma_write_empty_cursor[OF s(3), of None]
    by (intro exI[of _ w]) simp
qed

end
